theory Spec2Isabelle
  imports Complex_Main
begin

section \<open>Data model\<close>

text \<open>
  The Python exceptions that the modelled functions can raise. A function that may raise
  returns \<open>py_error + 'a\<close>, with \<open>Inl\<close> for the exception. Logging is not modelled: it
  has no effect on any returned value.
\<close>

datatype py_error = KeyError | TypeError | StatisticsError | IndexError | AssertionError

text \<open>
  A Python \<open>str\<close> is a sequence of Unicode code points. Kilometre positions and
  coordinates are numbers that the modelled code only stores and compares.
\<close>

type_synonym pystr = "nat list"

type_synonym StreckenKilometer = real

record Location =
  latitude :: real
  longitude :: real

text \<open>One entry of a station's \<open>locations_path\<close>: a route number and the kilometre
  position of the station on that route (its \<open>route_number\<close> and \<open>lfd_km\<close>).\<close>

record PathLocation =
  loc_route_number :: int
  lfd_km :: StreckenKilometer

text \<open>The fields of \<open>Station\<close> that the importers read or set; \<open>station_group\<close> is the
  attribute \<open>_group\<close>. An absent \<open>locations_path\<close> is \<open>None\<close>.\<close>

record Station =
  name :: pystr
  number :: int
  codes :: "pystr list"
  location :: "Location option"
  station_group :: "int option"
  locations_path :: "PathLocation list option"

record CodeWaypoint =
  distance_from_start :: real
  code :: pystr
  is_stop :: bool
  next_route_number :: "int option"

text \<open>A track kind is an integer, as the literal \<open>-1\<close> of \<open>track_from_path\<close> and the
  ordering that \<open>median_high\<close> needs require; \<open>length_km\<close> is the field \<open>length\<close>.\<close>

record Track =
  route_number :: "int option"
  electrified :: bool
  kind :: int
  length_km :: real
  from_km :: "StreckenKilometer option"
  to_km :: "StreckenKilometer option"

record Path =
  route_numer :: int
  tracks :: "Track list"

record Route =
  route_waypoints :: "CodeWaypoint list"
  route_tracks :: "Track list list"

section \<open>Python helpers\<close>

text \<open>A dict built from key/value pairs in order: a later pair replaces an earlier one
  with the same key.\<close>

definition dict_of :: "('k \<times> 'v) list \<Rightarrow> ('k \<rightharpoonup> 'v)" where
  "dict_of kvs = map_of (rev kvs)"

text \<open>\<open>statistics.median_high\<close>: the element at index \<open>n // 2\<close> of the sorted data,
  \<open>StatisticsError\<close> on no data.\<close>

definition median_high :: "('a::linorder) list \<Rightarrow> py_error + 'a" where
  "median_high xs = (if xs = [] then Inl StatisticsError else Inr (sort xs ! (length xs div 2)))"

section \<open>db_trassenfinder: from waypoints to a route\<close>

text \<open>\<open>TrackKind.UNKNOWN\<close> is declared outside the sources at hand; it is the parameter
  \<open>UNKNOWN\<close>.\<close>

definition invalid_track :: "int \<Rightarrow> int option \<Rightarrow> Track" where
  "invalid_track UNKNOWN rn =
     \<lparr>route_number = rn, electrified = False, kind = UNKNOWN, length_km = 0,
      from_km = None, to_km = None\<rparr>"

definition track_from_path ::
  "int \<Rightarrow> Track option \<Rightarrow> StreckenKilometer option \<Rightarrow> (int \<rightharpoonup> Path) \<Rightarrow> py_error + Track" where
  "track_from_path rn last_known_segment to_km' path_data =
     (case
        (case (last_known_segment, path_data rn) of
           (None, Some p) \<Rightarrow>
             (case median_high (map electrified (tracks p)) of
                Inl e \<Rightarrow> Inl e
              | Inr el \<Rightarrow>
                  (case median_high (map kind (tracks p)) of
                     Inl e \<Rightarrow> Inl e
                   | Inr kd \<Rightarrow>
                       Inr (Some \<lparr>route_number = Some rn, electrified = el, kind = kd,
                                  length_km = 0, from_km = None, to_km = None\<rparr>)))
         | _ \<Rightarrow> Inr last_known_segment)
      of
        Inl e \<Rightarrow> Inl e
      | Inr lks \<Rightarrow>
          Inr \<lparr>route_number = Some rn,
               electrified = (case lks of Some t \<Rightarrow> electrified t | None \<Rightarrow> False),
               kind = (case lks of Some t \<Rightarrow> kind t | None \<Rightarrow> - 1),
               length_km = 0,
               from_km = (case lks of Some t \<Rightarrow> to_km t | None \<Rightarrow> None),
               to_km = to_km'\<rparr>)"

text \<open>The test of line 99,
  \<open>km_start <= track.from_km <= km_end or km_start <= track.to_km <= km_end\<close>:
  comparing a number with \<open>None\<close> raises \<open>TypeError\<close>, and \<open>to_km\<close> is only looked at
  when the first chain is false.\<close>

definition track_in_range :: "real \<Rightarrow> real \<Rightarrow> Track \<Rightarrow> py_error + bool" where
  "track_in_range km_start km_end t =
     (case from_km t of
        None \<Rightarrow> Inl TypeError
      | Some f \<Rightarrow>
          if km_start \<le> f \<and> f \<le> km_end then Inr True
          else (case to_km t of
                  None \<Rightarrow> Inl TypeError
                | Some g \<Rightarrow> Inr (km_start \<le> g \<and> g \<le> km_end)))"

text \<open>The loop of lines 98 to 100 over \<open>path_used.tracks\<close>.\<close>

fun tracks_in_range :: "real \<Rightarrow> real \<Rightarrow> Track list \<Rightarrow> Track list \<Rightarrow> py_error + Track list" where
  "tracks_in_range km_start km_end [] tracks_between_waypoints = Inr tracks_between_waypoints"
| "tracks_in_range km_start km_end (t # ts) tracks_between_waypoints =
     (case track_in_range km_start km_end t of
        Inl e \<Rightarrow> Inl e
      | Inr b \<Rightarrow>
          tracks_in_range km_start km_end ts
            (if b then tracks_between_waypoints @ [t] else tracks_between_waypoints))"

text \<open>Truthiness of \<open>station.locations_path\<close>: present and not empty.\<close>

definition has_locations :: "Station \<Rightarrow> bool" where
  "has_locations s = (case locations_path s of None \<Rightarrow> False | Some ls \<Rightarrow> ls \<noteq> [])"

definition km_on_route :: "Station \<Rightarrow> int \<Rightarrow> StreckenKilometer list" where
  "km_on_route s rn =
     (case locations_path s of
        None \<Rightarrow> []
      | Some ls \<Rightarrow> map lfd_km (filter (\<lambda>l. loc_route_number l = rn) ls))"

text \<open>\<open>tracks_between_waypoints[-1] if tracks_between_waypoints else None\<close>.\<close>

definition last_or_none :: "'a list \<Rightarrow> 'a option" where
  "last_or_none xs = (if xs \<noteq> [] then Some (last xs) else None)"

text \<open>
  The body of the loop of lines 81 to 125 for one pair of waypoints; its value is the list
  \<open>tracks_between_waypoints\<close> at line 125. The condition of line 85 holds when
  \<open>next_route_number\<close> is present, not zero and a key of \<open>route_number_to_path\<close>.
\<close>

definition hop_tracks ::
  "int \<Rightarrow> (pystr \<rightharpoonup> Station) \<Rightarrow> (int \<rightharpoonup> Path) \<Rightarrow> CodeWaypoint \<Rightarrow> CodeWaypoint
     \<Rightarrow> py_error + Track list" where
  "hop_tracks UNKNOWN codes_to_station route_number_to_path waypoint next_waypoint =
     (let tracks_between_waypoints = [] in
      case codes_to_station (code waypoint) of
        None \<Rightarrow> Inl KeyError
      | Some station \<Rightarrow>
      (case codes_to_station (code next_waypoint) of
        None \<Rightarrow> Inl KeyError
      | Some next_station \<Rightarrow>
      (case (case next_route_number waypoint of
               None \<Rightarrow> None
             | Some rn \<Rightarrow> if rn = 0 then None
                          else map_option (\<lambda>p. (rn, p)) (route_number_to_path rn)) of
        None \<Rightarrow>
          Inr (tracks_between_waypoints @ [invalid_track UNKNOWN (next_route_number waypoint)])
      | Some (rn, path_used) \<Rightarrow>
          if has_locations station \<and> has_locations next_station then
            (let station_km = km_on_route station rn;
                 next_station_km = km_on_route next_station rn
             in if station_km \<noteq> [] \<and> next_station_km \<noteq> [] then
                  (let km_start = min (hd station_km) (hd next_station_km);
                       km_end = max (hd station_km) (hd next_station_km)
                   in tracks_in_range km_start km_end (tracks path_used) tracks_between_waypoints)
                else
                  (case track_from_path rn (last_or_none tracks_between_waypoints)
                          (if next_station_km \<noteq> [] then Some (hd next_station_km) else None)
                          route_number_to_path of
                     Inl e \<Rightarrow> Inl e
                   | Inr t \<Rightarrow> Inr (tracks_between_waypoints @ [t])))
          else
            (case track_from_path rn (last_or_none tracks_between_waypoints) None
                    route_number_to_path of
               Inl e \<Rightarrow> Inl e
             | Inr t \<Rightarrow> Inr (tracks_between_waypoints @ [t])))))"

text \<open>The loop of line 81 over the pairs of consecutive waypoints.\<close>

fun hops ::
  "int \<Rightarrow> (pystr \<rightharpoonup> Station) \<Rightarrow> (int \<rightharpoonup> Path) \<Rightarrow> (CodeWaypoint \<times> CodeWaypoint) list
     \<Rightarrow> Track list list \<Rightarrow> py_error + Track list list" where
  "hops UNKNOWN cs rp [] tracks_used = Inr tracks_used"
| "hops UNKNOWN cs rp ((waypoint, next_waypoint) # ps) tracks_used =
     (case hop_tracks UNKNOWN cs rp waypoint next_waypoint of
        Inl e \<Rightarrow> Inl e
      | Inr ts \<Rightarrow> hops UNKNOWN cs rp ps (tracks_used @ [ts]))"

text \<open>
  The two lookup tables of lines 78 and 79. \<open>iter_stations_by_codes_reverse\<close> is declared
  outside the sources at hand; it is the parameter \<open>iter_codes\<close>, the list of the pairs
  it yields.
\<close>

definition codes_to_station ::
  "(Station list \<Rightarrow> (pystr \<times> Station) list) \<Rightarrow> Station list \<Rightarrow> (pystr \<rightharpoonup> Station)" where
  "codes_to_station iter_codes station_data = dict_of (iter_codes station_data)"

definition route_number_to_path :: "Path list \<Rightarrow> (int \<rightharpoonup> Path)" where
  "route_number_to_path path_data = dict_of (map (\<lambda>p. (route_numer p, p)) path_data)"

definition convert_waypoints_to_route ::
  "int \<Rightarrow> (Station list \<Rightarrow> (pystr \<times> Station) list) \<Rightarrow> CodeWaypoint list \<Rightarrow> Station list
     \<Rightarrow> Path list \<Rightarrow> py_error + Route" where
  "convert_waypoints_to_route UNKNOWN iter_codes waypoints station_data path_data =
     (case hops UNKNOWN (codes_to_station iter_codes station_data)
             (route_number_to_path path_data) (zip waypoints (drop 1 waypoints)) [] of
        Inl e \<Rightarrow> Inl e
      | Inr tracks_used \<Rightarrow> Inr \<lparr>route_waypoints = waypoints, route_tracks = tracks_used\<rparr>)"

subsection \<open>Notions used to state the properties of the assembly\<close>

text \<open>The hop from \<open>w\<close> to \<open>w2\<close> takes the branch of lines 94 to 100: both stations are
  known, the route number of \<open>w\<close> is in the catalog and both stations have a kilometre
  position on that route.\<close>

definition located_on_route ::
  "(pystr \<rightharpoonup> Station) \<Rightarrow> (int \<rightharpoonup> Path) \<Rightarrow> CodeWaypoint \<Rightarrow> CodeWaypoint \<Rightarrow> bool" where
  "located_on_route cs rp w w2 =
     (case (cs (code w), cs (code w2), next_route_number w) of
        (Some s, Some s2, Some rn) \<Rightarrow>
          rn \<noteq> 0 \<and> rp rn \<noteq> None \<and> km_on_route s rn \<noteq> [] \<and> km_on_route s2 rn \<noteq> []
      | _ \<Rightarrow> False)"

text \<open>The hop from \<open>w\<close> takes the branch of line 124: the route number is absent, zero or
  not in the catalog.\<close>

definition route_unknown :: "(int \<rightharpoonup> Path) \<Rightarrow> CodeWaypoint \<Rightarrow> bool" where
  "route_unknown rp w =
     (case next_route_number w of None \<Rightarrow> True | Some rn \<Rightarrow> rn = 0 \<or> rp rn = None)"

text \<open>Every path of the catalog has a track, and every track has both kilometre bounds.\<close>

definition complete_paths :: "Path list \<Rightarrow> bool" where
  "complete_paths path_data =
     (\<forall>p \<in> set path_data.
        tracks p \<noteq> [] \<and> (\<forall>t \<in> set (tracks p). from_km t \<noteq> None \<and> to_km t \<noteq> None))"

section \<open>Example data\<close>

text \<open>A stand-in for \<open>iter_stations_by_codes_reverse\<close> in the examples: every station
  with each of its codes, the codes of one station in reverse order. The stations of the
  examples have one code each.\<close>

definition each_code :: "Station list \<Rightarrow> (pystr \<times> Station) list" where
  "each_code sts = concat (map (\<lambda>s. map (\<lambda>c. (c, s)) (rev (codes s))) sts)"

text \<open>A station with one code and the given path locations; a waypoint; a track of route
  100 from one kilometre position to another.\<close>

definition station_at :: "pystr \<Rightarrow> PathLocation list option \<Rightarrow> Station" where
  "station_at c ls =
     \<lparr>name = c, number = 0, codes = [c], location = None, station_group = None,
      locations_path = ls\<rparr>"

definition waypoint_at :: "real \<Rightarrow> pystr \<Rightarrow> int option \<Rightarrow> CodeWaypoint" where
  "waypoint_at d c rn =
     \<lparr>distance_from_start = d, code = c, is_stop = True, next_route_number = rn\<rparr>"

definition track_span :: "bool \<Rightarrow> int \<Rightarrow> real \<Rightarrow> real \<Rightarrow> Track" where
  "track_span e k f t =
     \<lparr>route_number = Some 100, electrified = e, kind = k, length_km = t - f,
      from_km = Some f, to_km = Some t\<rparr>"

definition km_100 :: "real \<Rightarrow> PathLocation list option" where
  "km_100 k = Some [\<lparr>loc_route_number = 100, lfd_km = k\<rparr>]"

section \<open>brouter_new: name normalization\<close>

text \<open>An ASCII string literal as a \<open>str\<close>.\<close>

definition ascii :: "string \<Rightarrow> pystr" where
  "ascii s = map of_char s"

definition is_ascii :: "pystr \<Rightarrow> bool" where
  "is_ascii s = list_all (\<lambda>c. c < 128) s"

text \<open>
  \<open>str.lower\<close> and \<open>unidecode.unidecode\<close> belong to the Python library and to the
  Unidecode package. On a string of ASCII characters, \<open>lower\<close> maps the letters A to Z to
  a to z and \<open>unidecode\<close> returns the string as it is; on any other string their values
  are those of the parameters \<open>L\<close> and \<open>U\<close>.
\<close>

definition lower_char :: "nat \<Rightarrow> nat" where
  "lower_char c = (if 65 \<le> c \<and> c \<le> 90 then c + 32 else c)"

definition lower :: "(pystr \<Rightarrow> pystr) \<Rightarrow> pystr \<Rightarrow> pystr" where
  "lower L s = (if is_ascii s then map lower_char s else L s)"

definition unidecode :: "(pystr \<Rightarrow> pystr) \<Rightarrow> pystr \<Rightarrow> pystr" where
  "unidecode U s = (if is_ascii s then s else U s)"

text \<open>\<open>delimiters.sub(" ", name)\<close> with the pattern \<open>[- _]\<close>: a hyphen, a space or an
  underscore becomes a space.\<close>

definition delimiters_sub :: "pystr \<Rightarrow> pystr" where
  "delimiters_sub s = map (\<lambda>c. if c = 45 \<or> c = 32 \<or> c = 95 then 32 else c) s"

text \<open>\<open>omitted_tokens.sub("", name)\<close> with the pattern \<open>[.']\<close>: full stops and apostrophes
  are deleted.\<close>

definition omitted_tokens_sub :: "pystr \<Rightarrow> pystr" where
  "omitted_tokens_sub s = filter (\<lambda>c. c \<noteq> 46 \<and> c \<noteq> 39) s"

text \<open>The characters that \<open>\s\<close> matches in a \<open>str\<close> pattern.\<close>

definition is_space :: "nat \<Rightarrow> bool" where
  "is_space c =
     ((9 \<le> c \<and> c \<le> 13) \<or> (28 \<le> c \<and> c \<le> 32) \<or> c = 133 \<or> c = 160 \<or> c = 5760
      \<or> (8192 \<le> c \<and> c \<le> 8202) \<or> c = 8232 \<or> c = 8233 \<or> c = 8239 \<or> c = 8287
      \<or> c = 12288)"

text \<open>\<open>more_than_one_space.sub(" ", name)\<close> with the pattern \<open>\s\s+\<close>: every maximal run of
  two or more whitespace characters becomes one space.\<close>

function more_than_one_space_sub :: "pystr \<Rightarrow> pystr" where
  "more_than_one_space_sub [] = []"
| "more_than_one_space_sub [c] = [c]"
| "more_than_one_space_sub (c # d # cs) =
     (if is_space c \<and> is_space d then 32 # more_than_one_space_sub (dropWhile is_space cs)
      else c # more_than_one_space_sub (d # cs))"
  by pat_completeness auto
termination
  by (relation "measure length") (auto simp: le_imp_less_Suc length_dropWhile_le less_Suc_eq_le le_SucI)

text \<open>\<open>name.replace("saint", "st")\<close>: the occurrences are replaced from left to right,
  without overlap.\<close>

definition saint :: pystr where
  "saint = [115, 97, 105, 110, 116]"

function replace_saint :: "pystr \<Rightarrow> pystr" where
  "replace_saint [] = []"
| "replace_saint (c # cs) =
     (if take 5 (c # cs) = saint then [115, 116] @ replace_saint (drop 4 cs)
      else c # replace_saint cs)"
  by pat_completeness auto
termination
  by (relation "measure length") auto

text \<open>No occurrence of \<open>saint\<close> starts in the string.\<close>

fun no_saint :: "pystr \<Rightarrow> bool" where
  "no_saint [] = True"
| "no_saint (c # cs) = (take 5 (c # cs) \<noteq> saint \<and> no_saint cs)"

text \<open>No two neighbours in the string are both whitespace.\<close>

fun no_run :: "pystr \<Rightarrow> bool" where
  "no_run [] = True"
| "no_run [c] = True"
| "no_run (c # d # cs) = (\<not> (is_space c \<and> is_space d) \<and> no_run (d # cs))"

definition normalize_name :: "(pystr \<Rightarrow> pystr) \<Rightarrow> (pystr \<Rightarrow> pystr) \<Rightarrow> pystr \<Rightarrow> pystr" where
  "normalize_name L U s =
     replace_saint (more_than_one_space_sub (omitted_tokens_sub (delimiters_sub
       (unidecode U (lower L s)))))"

text \<open>The string has no capital letter A to Z.\<close>

definition no_capitals :: "pystr \<Rightarrow> bool" where
  "no_capitals s = list_all (\<lambda>c. \<not> (65 \<le> c \<and> c \<le> 90)) s"

text \<open>
  Stand-ins for the two library functions in the examples. The only string of the examples
  that is not ASCII is the one of the two characters U+5317 and U+4EB0, which have no
  case; the documentation of Unidecode gives its transliteration as \<open>Bei Jing\<close> followed
  by a space.
\<close>

definition lower_sample :: "pystr \<Rightarrow> pystr" where
  "lower_sample s = s"

definition unidecode_sample :: "pystr \<Rightarrow> pystr" where
  "unidecode_sample s = (if s = [21271, 20144] then ascii ''Bei Jing '' else [])"

section \<open>brouter_new: resolving the waypoints of a trace\<close>

text \<open>A place returned by the geocoder: the properties \<open>name\<close> (which may be absent),
  \<open>osm_value\<close>, \<open>countrycode\<close> and \<open>osm_id\<close>, and its coordinates.\<close>

record Candidate =
  cand_name :: "pystr option"
  osm_value :: pystr
  countrycode :: pystr
  osm_id :: nat
  cand_location :: Location

record Country =
  flag :: pystr

definition group_from_photon_response :: "Candidate \<Rightarrow> int option" where
  "group_from_photon_response response =
     (let v = osm_value response in
      if v = ascii ''station'' then Some 2
      else if v = ascii ''stop'' then Some 5
      else if v = ascii ''halt'' then Some 5
      else if v = ascii ''junction'' then Some 4
      else None)"

definition largest_group :: "int option list \<Rightarrow> int option" where
  "largest_group groups =
     (if Some 0 \<in> set groups then Some 0
      else if Some 1 \<in> set groups then Some 1
      else if Some 2 \<in> set groups then Some 2
      else if Some 5 \<in> set groups then Some 5
      else if Some 3 \<in> set groups then Some 3
      else if Some 6 \<in> set groups then Some 6
      else if Some 4 \<in> set groups then Some 4
      else None)"

text \<open>\<open>str(n)\<close> for a natural number, and the number of bytes of a string in UTF-8.\<close>

fun decimal :: "nat \<Rightarrow> pystr" where
  "decimal n = (if n < 10 then [48 + n] else decimal (n div 10) @ [48 + n mod 10])"

declare decimal.simps [simp del]

definition utf8_length :: "pystr \<Rightarrow> nat" where
  "utf8_length s =
     sum_list (map (\<lambda>c. if c < 128 then 1 else if c < 2048 then 2 else if c < 65536 then 3 else 4) s)"

text \<open>A dict that is iterated over is a list of pairs with distinct keys, in the order of
  insertion: an assignment to a present key replaces its value in place.\<close>

fun dict_set :: "'k \<Rightarrow> 'v \<Rightarrow> ('k \<times> 'v) list \<Rightarrow> ('k \<times> 'v) list" where
  "dict_set k v [] = [(k, v)]"
| "dict_set k v ((k', v') # kvs) =
     (if k' = k then (k, v) # kvs else (k', v') # dict_set k v kvs)"

definition dict_pop :: "'k \<Rightarrow> ('k \<times> 'v) list \<Rightarrow> ('k \<times> 'v) list" where
  "dict_pop k kvs = filter (\<lambda>kv. fst kv \<noteq> k) kvs"

text \<open>The state of the importer that the loop of lines 52 to 167 changes: the two
  attributes \<open>stations\<close> and \<open>name_to_station\<close>, and the local dict
  \<open>waypoint_location_to_station_location\<close>.\<close>

record resolver =
  stations :: "Station list"
  name_to_station :: "pystr \<rightharpoonup> Station"
  waypoint_location_to_station_location :: "(Location \<times> Station) list"

text \<open>\<open>BrouterImporterNew.__init__\<close>, and the empty dict of line 50.\<close>

definition init_importer ::
  "(pystr \<Rightarrow> pystr) \<Rightarrow> (pystr \<Rightarrow> pystr) \<Rightarrow> Station list \<Rightarrow> resolver" where
  "init_importer L U station_data =
     \<lparr>stations = station_data,
      name_to_station = dict_of (map (\<lambda>station. (normalize_name L U (name station), station))
                                  station_data),
      waypoint_location_to_station_location = []\<rparr>"

text \<open>
  Lines 54 to 105. The geocoder is the parameter \<open>reverse\<close>: the places it returns for a
  point, \<open>None\<close> when it finds none, asked for railway stops (\<open>False\<close>) or for settlements
  (\<open>True\<close>). The result \<open>None\<close> is the \<open>continue\<close> of lines 102 and 105.
\<close>

definition possible_stations ::
  "(Location \<Rightarrow> bool \<Rightarrow> Candidate list option) \<Rightarrow> bool \<Rightarrow> Location \<Rightarrow> Candidate list option" where
  "possible_stations reverse fallback_town waypoint =
     (case reverse waypoint False of
        Some ps \<Rightarrow> Some ps
      | None \<Rightarrow> if fallback_town then reverse waypoint True else None)"

text \<open>Lines 139 to 159: the new station made from the first place. \<open>countries\<close> is declared
  outside the sources at hand; it is a parameter.\<close>

definition new_station ::
  "(pystr \<rightharpoonup> Country) \<Rightarrow> Candidate list \<Rightarrow> py_error + Station" where
  "new_station countries ps =
     (case ps of
        [] \<Rightarrow> Inl IndexError
      | p # _ \<Rightarrow>
          (case countries (countrycode p) of
             None \<Rightarrow> Inl KeyError
           | Some country \<Rightarrow>
               (let code = flag country @ [79] @ decimal (osm_id p) in
                if \<not> utf8_length code \<le> 20 then Inl AssertionError
                else (case cand_name p of
                        None \<Rightarrow> Inl KeyError
                      | Some n \<Rightarrow>
                          Inr \<lparr>name = n,
                               number = int (69 * 10 ^ length (decimal (osm_id p)) + osm_id p),
                               codes = [code],
                               location = Some (cand_location p),
                               station_group =
                                 largest_group (map group_from_photon_response ps),
                               locations_path = None\<rparr>))))"

text \<open>Lines 107 to 167 for one waypoint with the places \<open>ps\<close> found for it.\<close>

definition resolve_waypoint ::
  "(pystr \<Rightarrow> pystr) \<Rightarrow> (pystr \<Rightarrow> pystr) \<Rightarrow> (pystr \<rightharpoonup> Country) \<Rightarrow> Candidate list \<Rightarrow> Location
     \<Rightarrow> resolver \<Rightarrow> py_error + resolver" where
  "resolve_waypoint L U countries ps waypoint r =
     (let possible_station_names = map (normalize_name L U) (List.map_filter cand_name ps) in
      case find (\<lambda>n. name_to_station r n \<noteq> None) possible_station_names of
        Some n \<Rightarrow>
          (case name_to_station r n of
             None \<Rightarrow> Inl KeyError
           | Some station \<Rightarrow>
               (let r1 = r\<lparr>name_to_station := (name_to_station r)(n := None)\<rparr> in
                if location station = None then
                  (let station' = station\<lparr>location := Some waypoint\<rparr> in
                   Inr (r1\<lparr>stations := stations r1 @ [station'],
                           waypoint_location_to_station_location :=
                             dict_set waypoint station'
                               (waypoint_location_to_station_location r1)\<rparr>))
                else
                  Inr (r1\<lparr>waypoint_location_to_station_location :=
                             dict_set waypoint station
                               (waypoint_location_to_station_location r1)\<rparr>)))
      | None \<Rightarrow>
          (case new_station countries ps of
             Inl e \<Rightarrow> Inl e
           | Inr station \<Rightarrow>
               Inr (r\<lparr>stations := stations r @ [station],
                      waypoint_location_to_station_location :=
                        dict_set waypoint station
                          (waypoint_location_to_station_location r)\<rparr>)))"

text \<open>The loop of line 52 over \<open>gpx.waypoints\<close>.\<close>

fun resolve_waypoints ::
  "(pystr \<Rightarrow> pystr) \<Rightarrow> (pystr \<Rightarrow> pystr) \<Rightarrow> (pystr \<rightharpoonup> Country)
     \<Rightarrow> (Location \<Rightarrow> bool \<Rightarrow> Candidate list option) \<Rightarrow> bool \<Rightarrow> Location list
     \<Rightarrow> resolver \<Rightarrow> py_error + resolver" where
  "resolve_waypoints L U countries reverse fallback_town [] r = Inr r"
| "resolve_waypoints L U countries reverse fallback_town (waypoint # waypoints) r =
     (case possible_stations reverse fallback_town waypoint of
        None \<Rightarrow> resolve_waypoints L U countries reverse fallback_town waypoints r
      | Some ps \<Rightarrow>
          (case resolve_waypoint L U countries ps waypoint r of
             Inl e \<Rightarrow> Inl e
           | Inr r' \<Rightarrow> resolve_waypoints L U countries reverse fallback_town waypoints r'))"

section \<open>brouter_new: walking the trace\<close>

text \<open>The local variables of lines 170 to 174; \<open>open_stops\<close> is what is left of
  \<open>waypoint_location_to_station_location\<close>.\<close>

record walk =
  distance_total :: real
  code_waypoints :: "CodeWaypoint list"
  track_paths :: "(Location list \<times> Station) list"
  last_location :: "Location option"
  last_stop_index :: nat
  open_stops :: "(Location \<times> Station) list"

definition init_walk :: "(Location \<times> Station) list \<Rightarrow> walk" where
  "init_walk stops =
     \<lparr>distance_total = 0, code_waypoints = [], track_paths = [], last_location = None,
      last_stop_index = 0, open_stops = stops\<rparr>"

text \<open>The slice \<open>points[a:b]\<close> for indices that are not negative.\<close>

definition slice :: "'a list \<Rightarrow> nat \<Rightarrow> nat \<Rightarrow> 'a list" where
  "slice xs a b = drop a (take b xs)"

text \<open>
  The body of the loop of lines 176 to 198 for the track point \<open>trackpoint\<close> at \<open>index\<close>.
  \<open>Location.distance_float\<close> is declared outside the sources at hand; it is the parameter
  \<open>distance_float\<close>, applied to the receiver and then to the argument.
\<close>

definition walk_step ::
  "(Location \<Rightarrow> Location \<Rightarrow> real) \<Rightarrow> Location list \<Rightarrow> nat \<Rightarrow> Location \<Rightarrow> walk
     \<Rightarrow> py_error + walk" where
  "walk_step distance_float points index trackpoint w =
     (let total = (case last_location w of
                     Some l \<Rightarrow> distance_total w + distance_float trackpoint l
                   | None \<Rightarrow> distance_total w)
      in case find (\<lambda>kv. distance_float (fst kv) trackpoint < 8 / 100) (open_stops w) of
           Some (waypoint_location, stop) \<Rightarrow>
             (case codes stop of
                [] \<Rightarrow> Inl IndexError
              | c # _ \<Rightarrow>
                  Inr (w\<lparr>distance_total := total,
                         code_waypoints := code_waypoints w @
                           [\<lparr>distance_from_start = total, code = c, is_stop = True,
                             next_route_number = Some 0\<rparr>],
                         track_paths := track_paths w @
                           [(slice points (last_stop_index w) index, stop)],
                         last_stop_index := index,
                         open_stops := dict_pop waypoint_location (open_stops w),
                         last_location := Some trackpoint\<rparr>))
         | None \<Rightarrow> Inr (w\<lparr>distance_total := total, last_location := Some trackpoint\<rparr>))"

text \<open>The loop of line 176: \<open>rest\<close> are the track points from \<open>index\<close> on.\<close>

fun trace_walk ::
  "(Location \<Rightarrow> Location \<Rightarrow> real) \<Rightarrow> Location list \<Rightarrow> nat \<Rightarrow> Location list \<Rightarrow> walk
     \<Rightarrow> py_error + walk" where
  "trace_walk distance_float points index [] w = Inr w"
| "trace_walk distance_float points index (trackpoint # rest) w =
     (case walk_step distance_float points index trackpoint w of
        Inl e \<Rightarrow> Inl e
      | Inr w' \<Rightarrow> trace_walk distance_float points (Suc index) rest w')"

text \<open>
  \<open>BrouterImporterNew.import_data\<close> for the waypoints and the track points of the parsed
  file: the resolver after the first loop (the importer keeps its \<open>stations\<close>) and the
  variables after the second, of which the Python function returns \<open>code_waypoints\<close>.
\<close>

definition import_data ::
  "(pystr \<Rightarrow> pystr) \<Rightarrow> (pystr \<Rightarrow> pystr) \<Rightarrow> (pystr \<rightharpoonup> Country)
     \<Rightarrow> (Location \<Rightarrow> bool \<Rightarrow> Candidate list option) \<Rightarrow> (Location \<Rightarrow> Location \<Rightarrow> real)
     \<Rightarrow> bool \<Rightarrow> Station list \<Rightarrow> Location list \<Rightarrow> Location list
     \<Rightarrow> py_error + (resolver \<times> walk)" where
  "import_data L U countries reverse distance_float fallback_town station_data
       gpx_waypoints points =
     (case resolve_waypoints L U countries reverse fallback_town gpx_waypoints
             (init_importer L U station_data) of
        Inl e \<Rightarrow> Inl e
      | Inr r \<Rightarrow>
          (case trace_walk distance_float points 0 points
                  (init_walk (waypoint_location_to_station_location r)) of
             Inl e \<Rightarrow> Inl e
           | Inr w \<Rightarrow> Inr (r, w)))"

subsection \<open>Notions used to state the properties of the walk\<close>

text \<open>
  What holds of the variables of the walk before the track point at \<open>index\<close>, for a dict
  of \<open>n\<close> stops at the start: one recorded segment per emitted waypoint, every stop either
  emitted or still open, the segments together the track points before the last cut, and
  the emitted distances in ascending order below the running total.
\<close>

definition walk_inv :: "Location list \<Rightarrow> nat \<Rightarrow> nat \<Rightarrow> walk \<Rightarrow> bool" where
  "walk_inv points n index w =
     (length (track_paths w) = length (code_waypoints w)
      \<and> length (code_waypoints w) + length (open_stops w) = n
      \<and> distinct (map fst (open_stops w))
      \<and> list_all (\<lambda>kv. codes (snd kv) \<noteq> []) (open_stops w)
      \<and> last_stop_index w \<le> index
      \<and> concat (map fst (track_paths w)) = take (last_stop_index w) points)"

definition distances_inv :: "walk \<Rightarrow> bool" where
  "distances_inv w =
     (sorted (map distance_from_start (code_waypoints w))
      \<and> list_all (\<lambda>c. distance_from_start c \<le> distance_total w) (code_waypoints w))"

text \<open>
  The matched station hints in the words of the specification: at each track point the
  hints that are not yet consumed are tested in order for a distance below 0.08; the first
  hit is matched at the index of the point and removed. The result lists each match, the
  index of its track point with the hint, in the order of the trace; \<open>rest\<close> are the track
  points from \<open>index\<close> on.
\<close>

fun matched_hints ::
  "(Location \<Rightarrow> Location \<Rightarrow> real) \<Rightarrow> nat \<Rightarrow> Location list \<Rightarrow> (Location \<times> Station) list
     \<Rightarrow> (nat \<times> Location \<times> Station) list" where
  "matched_hints distance_float index [] hints = []"
| "matched_hints distance_float index (p # rest) hints =
     (case find (\<lambda>kv. distance_float (fst kv) p < 8 / 100) hints of
        None \<Rightarrow> matched_hints distance_float (Suc index) rest hints
      | Some kv \<Rightarrow>
          (index, kv) # matched_hints distance_float (Suc index) rest (dict_pop (fst kv) hints))"

text \<open>The pieces of a list between consecutive cut indices: the first piece runs from
  \<open>start\<close> up to the first cut, each later piece from one cut up to the next.\<close>

fun segments_between :: "'a list \<Rightarrow> nat \<Rightarrow> nat list \<Rightarrow> 'a list list" where
  "segments_between xs start [] = []"
| "segments_between xs start (i # cuts) = slice xs start i # segments_between xs i cuts"

section \<open>Example data for the importer of traces\<close>

text \<open>A stand-in for \<open>Location.distance_float\<close> in the examples, in kilometres: 111 times
  the sum of the differences in latitude and in longitude. As every distance it is zero
  between equal points.\<close>

definition grid_km :: "Location \<Rightarrow> Location \<Rightarrow> real" where
  "grid_km a b = 111 * (\<bar>latitude a - latitude b\<bar> + \<bar>longitude a - longitude b\<bar>)"

definition point :: "real \<Rightarrow> real \<Rightarrow> Location" where
  "point la lo = \<lparr>latitude = la, longitude = lo\<rparr>"

text \<open>A catalog station with one code and no location.\<close>

definition plain_station :: "string \<Rightarrow> string \<Rightarrow> Station" where
  "plain_station n c =
     \<lparr>name = ascii n, number = 1, codes = [ascii c], location = None, station_group = None,
      locations_path = None\<rparr>"

text \<open>A geocoder that finds the same single place for every point when asked for railway
  stops, and nothing when asked for settlements.\<close>

definition one_place :: "Candidate \<Rightarrow> Location \<Rightarrow> bool \<Rightarrow> Candidate list option" where
  "one_place p waypoint settlements = (if settlements then None else Some [p])"

definition halt_place :: "string \<Rightarrow> Candidate" where
  "halt_place n =
     \<lparr>cand_name = Some (ascii n), osm_value = ascii ''halt'', countrycode = ascii ''DE'',
      osm_id = 123456, cand_location = point (480001 / 10000) 9\<rparr>"

text \<open>The entry of \<open>countries\<close> for Germany: its flag is the two characters U+1F1E9 and
  U+1F1EA.\<close>

definition countries_de :: "pystr \<rightharpoonup> Country" where
  "countries_de = [ascii ''DE'' \<mapsto> \<lparr>flag = [127465, 127466]\<rparr>]"

section \<open>Properties of the route assembly\<close>

lemma tracks_in_range_total:
  "\<forall>t \<in> set ts. from_km t \<noteq> None \<and> to_km t \<noteq> None \<Longrightarrow>
   \<exists>r. tracks_in_range a b ts acc = Inr r"
  by (induction ts arbitrary: acc) (auto simp: track_in_range_def)

lemma median_high_total: "xs \<noteq> [] \<Longrightarrow> \<exists>m. median_high xs = Inr m"
  by (simp add: median_high_def)

lemma track_from_path_total:
  assumes "rp rn = Some p" "tracks p \<noteq> []"
  shows "\<exists>t. track_from_path rn lks k rp = Inr t"
proof -
  obtain el where el: "median_high (map electrified (tracks p)) = Inr el"
    using median_high_total [of "map electrified (tracks p)"] assms(2) by auto
  obtain kd where kd: "median_high (map kind (tracks p)) = Inr kd"
    using median_high_total [of "map kind (tracks p)"] assms(2) by auto
  show ?thesis
    by (cases lks) (simp_all add: track_from_path_def assms(1) el kd)
qed

lemma route_number_to_path_mem:
  "route_number_to_path path_data rn = Some p \<Longrightarrow> p \<in> set path_data"
  by (auto simp: route_number_to_path_def dict_of_def dest!: map_of_SomeD)

text \<open>With both stations known and complete paths, one hop returns; its tuple is empty
  only in the branch of the kilometre positions, and it is the placeholder when the route
  is unknown.\<close>

lemma hop_tracks_total:
  assumes "cs (code w) \<noteq> None" "cs (code w2) \<noteq> None" "complete_paths path_data"
  defines "rp \<equiv> route_number_to_path path_data"
  shows "\<exists>ts. hop_tracks U cs rp w w2 = Inr ts
           \<and> (ts = [] \<longrightarrow> located_on_route cs rp w w2)
           \<and> (route_unknown rp w \<longrightarrow> ts = [invalid_track U (next_route_number w)])"
proof -
  obtain s s2 where s: "cs (code w) = Some s" and s2: "cs (code w2) = Some s2"
    using assms(1,2) by auto
  show ?thesis
  proof (cases "next_route_number w")
    case None
    then show ?thesis by (simp add: hop_tracks_def s s2)
  next
    case (Some rn)
    show ?thesis
    proof (cases "rn = 0 \<or> rp rn = None")
      case True
      then show ?thesis by (auto simp: hop_tracks_def s s2 Some)
    next
      case False
      then obtain p where p: "rp rn = Some p" and rn: "rn \<noteq> 0" by auto
      have known: "\<not> route_unknown rp w"
        by (simp add: route_unknown_def Some rn p)
      from p have "p \<in> set path_data"
        unfolding rp_def by (rule route_number_to_path_mem)
      with assms(3) have tp: "tracks p \<noteq> []"
        and km: "\<forall>t \<in> set (tracks p). from_km t \<noteq> None \<and> to_km t \<noteq> None"
        by (auto simp: complete_paths_def)
      have fb: "\<exists>t. track_from_path rn lks k rp = Inr t" for lks k
        by (rule track_from_path_total) (rule p, rule tp)
      show ?thesis
      proof (cases "has_locations s \<and> has_locations s2
                     \<and> km_on_route s rn \<noteq> [] \<and> km_on_route s2 rn \<noteq> []")
        case True
        obtain r where r:
          "tracks_in_range (min (hd (km_on_route s rn)) (hd (km_on_route s2 rn)))
             (max (hd (km_on_route s rn)) (hd (km_on_route s2 rn))) (tracks p) [] = Inr r"
          using tracks_in_range_total [OF km] by blast
        have "located_on_route cs rp w w2"
          using True by (simp add: located_on_route_def s s2 Some rn p)
        with True r known show ?thesis
          by (simp add: hop_tracks_def s s2 Some rn p Let_def)
      next
        case False
        obtain t1 where t1: "track_from_path rn (last_or_none [])
            (if km_on_route s2 rn \<noteq> [] then Some (hd (km_on_route s2 rn)) else None) rp = Inr t1"
          using fb by blast
        obtain t2 where t2: "track_from_path rn (last_or_none []) None rp = Inr t2"
          using fb by blast
        from False t1 t2 known show ?thesis
          by (auto simp: hop_tracks_def s s2 Some rn p Let_def)
      qed
    qed
  qed
qed

lemma hops_total:
  assumes "\<forall>p \<in> set ps. \<exists>ts. hop_tracks U cs rp (fst p) (snd p) = Inr ts \<and> Q p ts"
  shows "\<exists>rs. hops U cs rp ps acc = Inr (acc @ rs) \<and> length rs = length ps
           \<and> (\<forall>i < length ps. Q (ps ! i) (rs ! i))"
  using assms
proof (induction ps arbitrary: acc)
  case Nil
  then show ?case by simp
next
  case (Cons p ps)
  obtain w w2 where pw: "p = (w, w2)" by (cases p)
  from Cons.prems obtain ts where ts: "hop_tracks U cs rp w w2 = Inr ts"
    and q: "Q p ts" by (auto simp: pw)
  from Cons.prems
  have "\<forall>p \<in> set ps. \<exists>ts. hop_tracks U cs rp (fst p) (snd p) = Inr ts \<and> Q p ts"
    by simp
  from Cons.IH [OF this, of "acc @ [ts]"] obtain rs where
    rs: "hops U cs rp ps (acc @ [ts]) = Inr ((acc @ [ts]) @ rs)" "length rs = length ps"
       "\<forall>i < length ps. Q (ps ! i) (rs ! i)" by blast
  have "\<forall>i < length (p # ps). Q ((p # ps) ! i) ((ts # rs) ! i)"
  proof (intro allI impI)
    fix i assume "i < length (p # ps)"
    then show "Q ((p # ps) ! i) ((ts # rs) ! i)"
      using q rs(3) by (cases i) auto
  qed
  with rs ts show ?case
    by (intro exI [of _ "ts # rs"]) (simp add: pw)
qed

lemma hops_raises:
  "\<exists>p \<in> set ps. \<exists>e. hop_tracks U cs rp (fst p) (snd p) = Inl e \<Longrightarrow>
   \<exists>e. hops U cs rp ps acc = Inl e"
proof (induction ps arbitrary: acc)
  case Nil
  then show ?case by simp
next
  case (Cons p ps)
  obtain w w2 where pw: "p = (w, w2)" by (cases p)
  show ?case
  proof (cases "hop_tracks U cs rp w w2")
    case (Inl e)
    then show ?thesis by (simp add: pw)
  next
    case (Inr ts)
    with Cons.prems have "\<exists>p \<in> set ps. \<exists>e. hop_tracks U cs rp (fst p) (snd p) = Inl e"
      by (auto simp: pw)
    from Cons.IH [OF this] Inr show ?thesis by (simp add: pw)
  qed
qed

lemma hop_tracks_KeyError:
  "cs (code w) = None \<or> cs (code w2) = None \<Longrightarrow> hop_tracks U cs rp w w2 = Inl KeyError"
  by (auto simp: hop_tracks_def split: option.splits)

lemma in_consecutive_pairs:
  assumes "w \<in> set ws" "2 \<le> length ws"
  shows "\<exists>p \<in> set (zip ws (drop 1 ws)). fst p = w \<or> snd p = w"
proof -
  from assms(1) obtain i where i: "i < length ws" "ws ! i = w"
    by (auto simp: in_set_conv_nth)
  show ?thesis
  proof (cases "Suc i < length ws")
    case True
    then have "(ws ! i, drop 1 ws ! i) \<in> set (zip ws (drop 1 ws))"
      by (auto simp: in_set_zip intro!: exI [of _ i])
    with i show ?thesis by force
  next
    case False
    with i assms(2) obtain j where j: "i = Suc j" by (cases i) auto
    with i have "(ws ! j, drop 1 ws ! j) \<in> set (zip ws (drop 1 ws))"
      by (auto simp: in_set_zip intro!: exI [of _ j])
    moreover have "drop 1 ws ! j = w" using i j by simp
    ultimately show ?thesis by force
  qed
qed

lemma consecutive_pairs_known:
  assumes "\<forall>w \<in> set ws. cs (code w) \<noteq> None" "p \<in> set (zip ws (drop 1 ws))"
  shows "cs (code (fst p)) \<noteq> None \<and> cs (code (snd p)) \<noteq> None"
proof -
  obtain a b where p: "p = (a, b)" by (cases p)
  with assms(2) have "a \<in> set ws" "b \<in> set (drop 1 ws)"
    by (auto dest: set_zip_leftD set_zip_rightD)
  moreover have "set (drop 1 ws) \<subseteq> set ws" by (rule set_drop_subset)
  ultimately show ?thesis using assms(1) p by auto
qed

text \<open>With every code known and complete paths, the whole loop returns one tuple per
  pair of consecutive waypoints.\<close>

lemma assembly_total:
  assumes known: "\<forall>w \<in> set waypoints. cs (code w) \<noteq> None"
    and paths: "complete_paths path_data"
  defines "rp \<equiv> route_number_to_path path_data"
  shows "\<exists>tracks_used.
           hops U cs rp (zip waypoints (drop 1 waypoints)) [] = Inr tracks_used
         \<and> length tracks_used = length waypoints - 1
         \<and> (\<forall>i < length tracks_used.
              (tracks_used ! i = [] \<longrightarrow> located_on_route cs rp (waypoints ! i) (waypoints ! Suc i))
            \<and> (route_unknown rp (waypoints ! i) \<longrightarrow>
                 tracks_used ! i = [invalid_track U (next_route_number (waypoints ! i))]))"
proof -
  let ?ps = "zip waypoints (drop 1 waypoints)"
  let ?Q = "\<lambda>p ts. (ts = [] \<longrightarrow> located_on_route cs rp (fst p) (snd p))
                 \<and> (route_unknown rp (fst p) \<longrightarrow> ts = [invalid_track U (next_route_number (fst p))])"
  have "\<forall>p \<in> set ?ps. \<exists>ts. hop_tracks U cs rp (fst p) (snd p) = Inr ts \<and> ?Q p ts"
  proof
    fix p assume "p \<in> set ?ps"
    from consecutive_pairs_known [OF known this]
    have "cs (code (fst p)) \<noteq> None" "cs (code (snd p)) \<noteq> None" by simp_all
    from hop_tracks_total [OF this paths, of U]
    show "\<exists>ts. hop_tracks U cs rp (fst p) (snd p) = Inr ts \<and> ?Q p ts"
      unfolding rp_def by blast
  qed
  from hops_total [of ?ps U cs rp ?Q "[]", OF this] obtain rs where
    rs: "hops U cs rp ?ps [] = Inr rs" "length rs = length ?ps"
        "\<forall>i < length ?ps. ?Q (?ps ! i) (rs ! i)" by auto
  have len: "length ?ps = length waypoints - 1" by simp
  have "\<forall>i < length rs.
          (rs ! i = [] \<longrightarrow> located_on_route cs rp (waypoints ! i) (waypoints ! Suc i))
        \<and> (route_unknown rp (waypoints ! i) \<longrightarrow>
             rs ! i = [invalid_track U (next_route_number (waypoints ! i))])"
  proof (intro allI impI)
    fix i assume i: "i < length rs"
    with rs(2) len have "Suc i < length waypoints" by simp
    then have "?ps ! i = (waypoints ! i, waypoints ! Suc i)" by simp
    with rs(3) i rs(2)
    show "(rs ! i = [] \<longrightarrow> located_on_route cs rp (waypoints ! i) (waypoints ! Suc i))
        \<and> (route_unknown rp (waypoints ! i) \<longrightarrow>
             rs ! i = [invalid_track U (next_route_number (waypoints ! i))])"
      by (metis fst_conv snd_conv)
  qed
  with rs(1,2) len show ?thesis by auto
qed


lemmas example_defs =
  convert_waypoints_to_route_def codes_to_station_def route_number_to_path_def dict_of_def
  each_code_def station_at_def waypoint_at_def track_span_def km_100_def hop_tracks_def
  has_locations_def km_on_route_def track_in_range_def track_from_path_def median_high_def
  last_or_none_def invalid_track_def

text \<open>
  Claim C1, as amended. For a list of at least one waypoint whose codes are all keys of
  the station lookup table, and a catalog in which every path has a track and every track
  both kilometre bounds, \<open>convert_waypoints_to_route\<close> returns a route with the given
  waypoints and exactly one track tuple per pair of consecutive waypoints, none for a
  single waypoint. A tuple can be empty only for a hop that is resolved from the kilometre
  positions of its two stations; every other hop holds one synthesized track.
\<close>

theorem C1_hop_count:
  assumes "waypoints \<noteq> []"
    and "\<forall>w \<in> set waypoints. codes_to_station iter_codes station_data (code w) \<noteq> None"
    and "complete_paths path_data"
  shows "\<exists>tracks_used.
      convert_waypoints_to_route UNKNOWN iter_codes waypoints station_data path_data
        = Inr \<lparr>route_waypoints = waypoints, route_tracks = tracks_used\<rparr>
    \<and> length tracks_used = length waypoints - 1
    \<and> (length waypoints = 1 \<longrightarrow> tracks_used = [])
    \<and> (\<forall>i < length tracks_used.
          tracks_used ! i = [] \<longrightarrow>
          located_on_route (codes_to_station iter_codes station_data)
            (route_number_to_path path_data) (waypoints ! i) (waypoints ! Suc i))"
proof -
  from assembly_total [OF assms(2,3), of UNKNOWN] obtain tracks_used where
    t: "hops UNKNOWN (codes_to_station iter_codes station_data) (route_number_to_path path_data)
          (zip waypoints (drop 1 waypoints)) [] = Inr tracks_used"
       "length tracks_used = length waypoints - 1"
       "\<forall>i < length tracks_used.
          tracks_used ! i = [] \<longrightarrow>
          located_on_route (codes_to_station iter_codes station_data)
            (route_number_to_path path_data) (waypoints ! i) (waypoints ! Suc i)"
    by blast
  from t(1) have "convert_waypoints_to_route UNKNOWN iter_codes waypoints station_data path_data
        = Inr \<lparr>route_waypoints = waypoints, route_tracks = tracks_used\<rparr>"
    by (simp add: convert_waypoints_to_route_def)
  moreover from t(2) have "length waypoints = 1 \<longrightarrow> tracks_used = []" by auto
  ultimately show ?thesis using t(2,3) by blast
qed

text \<open>
  The theorem of claim C1 at a list of three waypoints and at a single waypoint.
\<close>

theorem C1_hop_count_witness:
  "(\<exists>tracks_used.
      convert_waypoints_to_route 9 each_code
        [waypoint_at 0 [65] (Some 100), waypoint_at 7 [66] (Some 7), waypoint_at 9 [67] None]
        [station_at [65] (km_100 5), station_at [66] (km_100 12), station_at [67] None]
        [\<lparr>route_numer = 100,
          tracks = [track_span True 1 0 6, track_span True 1 6 10, track_span False 2 10 15]\<rparr>]
      = Inr \<lparr>route_waypoints =
               [waypoint_at 0 [65] (Some 100), waypoint_at 7 [66] (Some 7), waypoint_at 9 [67] None],
             route_tracks = tracks_used\<rparr>
      \<and> length tracks_used = 2)
   \<and> convert_waypoints_to_route 9 each_code [waypoint_at 0 [65] (Some 100)]
       [station_at [65] (km_100 5)] []
     = Inr \<lparr>route_waypoints = [waypoint_at 0 [65] (Some 100)], route_tracks = []\<rparr>"
proof -
  let ?ws = "[waypoint_at 0 [65] (Some 100), waypoint_at 7 [66] (Some 7), waypoint_at 9 [67] None]"
  let ?sd = "[station_at [65] (km_100 5), station_at [66] (km_100 12), station_at [67] None]"
  let ?pd = "[\<lparr>route_numer = 100,
      tracks = [track_span True 1 0 6, track_span True 1 6 10, track_span False 2 10 15]\<rparr>]"
  let ?w1 = "[waypoint_at 0 [65] (Some 100)]"
  let ?s1 = "[station_at [65] (km_100 5)]"
  have h1: "?ws \<noteq> []" by simp
  have h2: "\<forall>w \<in> set ?ws. codes_to_station each_code ?sd (code w) \<noteq> None"
    by (simp add: codes_to_station_def dict_of_def each_code_def station_at_def waypoint_at_def)
  have h3: "complete_paths ?pd"
    by (simp add: complete_paths_def track_span_def)
  have g1: "?w1 \<noteq> []" by simp
  have g2: "\<forall>w \<in> set ?w1. codes_to_station each_code ?s1 (code w) \<noteq> None"
    by (simp add: codes_to_station_def dict_of_def each_code_def station_at_def waypoint_at_def)
  have g3: "complete_paths []" by (simp add: complete_paths_def)
  from C1_hop_count [OF h1 h2 h3, of 9]
  have a: "\<exists>tracks_used. convert_waypoints_to_route 9 each_code ?ws ?sd ?pd
      = Inr \<lparr>route_waypoints = ?ws, route_tracks = tracks_used\<rparr> \<and> length tracks_used = 2"
    by auto
  from C1_hop_count [OF g1 g2 g3, of 9]
  have b: "convert_waypoints_to_route 9 each_code ?w1 ?s1 []
      = Inr \<lparr>route_waypoints = ?w1, route_tracks = []\<rparr>"
    by auto
  from a b show ?thesis by blast
qed

text \<open>
  Claim C1 as stated fails: two stations at kilometres 10 and 12 of route 100, whose path
  has one track from kilometre 0 to 6, give a route whose only track tuple is empty.
\<close>

theorem C1_empty_hop_counterexample:
  "convert_waypoints_to_route 9 each_code
     [waypoint_at 0 [65] (Some 100), waypoint_at 2 [66] None]
     [station_at [65] (km_100 10), station_at [66] (km_100 12)]
     [\<lparr>route_numer = 100, tracks = [track_span True 1 0 6]\<rparr>]
   = Inr \<lparr>route_waypoints = [waypoint_at 0 [65] (Some 100), waypoint_at 2 [66] None],
          route_tracks = [[]]\<rparr>"
  by (simp add: example_defs)

text \<open>
  In the branches of lines 101 to 122 the synthesized track never depends on an earlier
  hop: with a route number of the catalog and a station without a kilometre position on
  it, the hop is one track with the median values of the whole path and no \<open>from_km\<close>.
\<close>

lemma hop_fallback_is_median:
  assumes "cs (code w) = Some s" "cs (code w2) = Some s2"
    and "next_route_number w = Some rn" "rn \<noteq> 0" "rp rn = Some p"
    and "km_on_route s rn = [] \<or> km_on_route s2 rn = []"
    and "median_high (map electrified (tracks p)) = Inr el"
    and "median_high (map kind (tracks p)) = Inr kd"
  shows "\<exists>k. hop_tracks U cs rp w w2
           = Inr [\<lparr>route_number = Some rn, electrified = el, kind = kd, length_km = 0,
                   from_km = None, to_km = k\<rparr>]"
  using assms
  by (auto simp: hop_tracks_def track_from_path_def last_or_none_def Let_def)

text \<open>
  Claim C2 at a failing input. The hop from A to B is resolved to the first track of route
  100 (electrified, kind 1, up to kilometre 5); the next hop, from B to a station without
  kilometre positions, is on the same route. The claim gives the synthesized track the
  values of that last resolved track: electrified, kind 1, from kilometre 5. The code
  gives it the median values of the whole path (not electrified, kind 2) and no
  \<open>from_km\<close>: the list it takes the last track from is emptied at the start of each hop.
\<close>

theorem C2_fallback_ignores_last_track:
  "convert_waypoints_to_route 9 each_code
     [waypoint_at 0 [65] (Some 100), waypoint_at 5 [66] (Some 100), waypoint_at 8 [67] None]
     [station_at [65] (km_100 0), station_at [66] (km_100 5), station_at [67] None]
     [\<lparr>route_numer = 100,
       tracks = [track_span True 1 0 5, track_span False 2 10 15, track_span False 2 15 20]\<rparr>]
   = Inr \<lparr>route_waypoints =
            [waypoint_at 0 [65] (Some 100), waypoint_at 5 [66] (Some 100), waypoint_at 8 [67] None],
          route_tracks =
            [[track_span True 1 0 5],
             [\<lparr>route_number = Some 100, electrified = False, kind = 2, length_km = 0,
               from_km = None, to_km = None\<rparr>]]\<rparr>"
  by (simp add: example_defs)

text \<open>
  What the loop of lines 98 to 100 collects, when every track has both bounds: the tracks
  with a bound between \<open>km_start\<close> and \<open>km_end\<close>, in the order of the path.
\<close>

lemma tracks_in_range_filter:
  assumes "\<forall>t \<in> set ts. from_km t \<noteq> None \<and> to_km t \<noteq> None"
  shows "tracks_in_range a b ts acc
         = Inr (acc @ filter (\<lambda>t. (a \<le> the (from_km t) \<and> the (from_km t) \<le> b)
                                  \<or> (a \<le> the (to_km t) \<and> the (to_km t) \<le> b)) ts)"
  using assms by (induction ts arbitrary: acc) (auto simp: track_in_range_def)

text \<open>
  Claim C3 at a failing input. Two stations at kilometres 5 and 12 of route 100, whose path
  is one track from kilometre 0 to 20: the interval of the track overlaps the interval of
  the hop, and the claim puts the track into the hop's tuple. The code tests only whether
  a bound of the track lies between the two stations, and returns an empty tuple.
\<close>

theorem C3_enclosing_track_missed:
  "convert_waypoints_to_route 9 each_code
     [waypoint_at 0 [65] (Some 100), waypoint_at 7 [66] None]
     [station_at [65] (km_100 5), station_at [66] (km_100 12)]
     [\<lparr>route_numer = 100, tracks = [track_span True 1 0 20]\<rparr>]
   = Inr \<lparr>route_waypoints = [waypoint_at 0 [65] (Some 100), waypoint_at 7 [66] None],
          route_tracks = [[]]\<rparr>"
  by (simp add: example_defs)

text \<open>
  The scenario of claim C3 holds: stations at kilometres 5 and 12 over the tracks 0 to 6,
  6 to 10 and 10 to 15 get all three tracks.
\<close>

lemma scenario_three_tracks:
  "convert_waypoints_to_route 9 each_code
     [waypoint_at 0 [65] (Some 100), waypoint_at 7 [66] None]
     [station_at [65] (km_100 5), station_at [66] (km_100 12)]
     [\<lparr>route_numer = 100,
       tracks = [track_span True 1 0 6, track_span True 1 6 10, track_span False 2 10 15]\<rparr>]
   = Inr \<lparr>route_waypoints = [waypoint_at 0 [65] (Some 100), waypoint_at 7 [66] None],
          route_tracks = [[track_span True 1 0 6, track_span True 1 6 10, track_span False 2 10 15]]\<rparr>"
  by (simp add: example_defs)

text \<open>With complete paths the only exception of a hop is the \<open>KeyError\<close> of an unknown
  station code, and the loop raises it when a hop does.\<close>

lemma hops_KeyError:
  assumes "\<forall>p \<in> set ps. (\<exists>ts. hop_tracks U cs rp (fst p) (snd p) = Inr ts)
                        \<or> hop_tracks U cs rp (fst p) (snd p) = Inl KeyError"
    and "\<exists>p \<in> set ps. hop_tracks U cs rp (fst p) (snd p) = Inl KeyError"
  shows "hops U cs rp ps acc = Inl KeyError"
  using assms
proof (induction ps arbitrary: acc)
  case Nil
  then show ?case by simp
next
  case (Cons p ps)
  obtain w w2 where pw: "p = (w, w2)" by (cases p)
  show ?case
  proof (cases "hop_tracks U cs rp w w2")
    case (Inl e)
    with Cons.prems(1) have "e = KeyError" by (auto simp: pw)
    with Inl show ?thesis by (simp add: pw)
  next
    case (Inr ts)
    with Cons.prems(2) have "\<exists>p \<in> set ps. hop_tracks U cs rp (fst p) (snd p) = Inl KeyError"
      by (auto simp: pw)
    moreover from Cons.prems(1)
    have "\<forall>p \<in> set ps. (\<exists>ts. hop_tracks U cs rp (fst p) (snd p) = Inr ts)
                        \<or> hop_tracks U cs rp (fst p) (snd p) = Inl KeyError" by simp
    ultimately have "hops U cs rp ps (acc @ [ts]) = Inl KeyError" by (rule Cons.IH [rotated])
    with Inr show ?thesis by (simp add: pw)
  qed
qed

lemma hop_tracks_returns_or_KeyError:
  assumes "complete_paths path_data"
  shows "(\<exists>ts. hop_tracks U cs (route_number_to_path path_data) w w2 = Inr ts)
         \<or> hop_tracks U cs (route_number_to_path path_data) w w2 = Inl KeyError"
proof (cases "cs (code w) = None \<or> cs (code w2) = None")
  case True
  then show ?thesis by (simp add: hop_tracks_KeyError)
next
  case False
  then have "cs (code w) \<noteq> None" "cs (code w2) \<noteq> None" by simp_all
  from hop_tracks_total [OF this assms, of U] show ?thesis by blast
qed

text \<open>
  Claim C4, as amended. A miss in the path catalog does not abort the run: when every
  waypoint's code is a key of the station lookup table (and every path has a track, every
  track both kilometre bounds), \<open>convert_waypoints_to_route\<close> returns a route, and each hop
  whose route number is absent, zero or not in the catalog holds exactly the placeholder
  track. A miss in the station lookup table does abort it: with at least two waypoints,
  one of them with a code that is no key of the table, the call raises and returns no
  route; the exception is \<open>KeyError\<close> when every path has a track and every track both
  kilometre bounds.
\<close>

theorem C4_lookup_miss:
  "(2 \<le> length waypoints
      \<and> (\<exists>w \<in> set waypoints. codes_to_station iter_codes station_data (code w) = None)
     \<longrightarrow> (\<exists>e. convert_waypoints_to_route UNKNOWN iter_codes waypoints station_data path_data = Inl e)
        \<and> (complete_paths path_data \<longrightarrow>
             convert_waypoints_to_route UNKNOWN iter_codes waypoints station_data path_data
               = Inl KeyError))
   \<and> ((\<forall>w \<in> set waypoints. codes_to_station iter_codes station_data (code w) \<noteq> None)
      \<and> complete_paths path_data
     \<longrightarrow> (\<exists>tracks_used.
            convert_waypoints_to_route UNKNOWN iter_codes waypoints station_data path_data
              = Inr \<lparr>route_waypoints = waypoints, route_tracks = tracks_used\<rparr>
          \<and> (\<forall>i < length tracks_used.
                route_unknown (route_number_to_path path_data) (waypoints ! i) \<longrightarrow>
                tracks_used ! i = [invalid_track UNKNOWN (next_route_number (waypoints ! i))])))"
proof (intro conjI impI)
  assume a: "2 \<le> length waypoints
      \<and> (\<exists>w \<in> set waypoints. codes_to_station iter_codes station_data (code w) = None)"
  then obtain w where w: "w \<in> set waypoints"
      "codes_to_station iter_codes station_data (code w) = None" by blast
  from in_consecutive_pairs [OF w(1)] a obtain p where
    p: "p \<in> set (zip waypoints (drop 1 waypoints))" "fst p = w \<or> snd p = w" by blast
  with w(2) have k: "hop_tracks UNKNOWN (codes_to_station iter_codes station_data)
      (route_number_to_path path_data) (fst p) (snd p) = Inl KeyError"
    by (intro hop_tracks_KeyError) auto
  with p(1) have "\<exists>e. hops UNKNOWN (codes_to_station iter_codes station_data)
      (route_number_to_path path_data) (zip waypoints (drop 1 waypoints)) [] = Inl e"
    by (intro hops_raises) blast
  then show "\<exists>e. convert_waypoints_to_route UNKNOWN iter_codes waypoints station_data path_data = Inl e"
    by (auto simp: convert_waypoints_to_route_def)
  assume c: "complete_paths path_data"
  have "hops UNKNOWN (codes_to_station iter_codes station_data)
      (route_number_to_path path_data) (zip waypoints (drop 1 waypoints)) [] = Inl KeyError"
  proof (rule hops_KeyError)
    show "\<forall>p \<in> set (zip waypoints (drop 1 waypoints)).
        (\<exists>ts. hop_tracks UNKNOWN (codes_to_station iter_codes station_data)
                 (route_number_to_path path_data) (fst p) (snd p) = Inr ts)
        \<or> hop_tracks UNKNOWN (codes_to_station iter_codes station_data)
             (route_number_to_path path_data) (fst p) (snd p) = Inl KeyError"
      using hop_tracks_returns_or_KeyError [OF c] by blast
    show "\<exists>p \<in> set (zip waypoints (drop 1 waypoints)).
        hop_tracks UNKNOWN (codes_to_station iter_codes station_data)
          (route_number_to_path path_data) (fst p) (snd p) = Inl KeyError"
      using p(1) k by blast
  qed
  then show "convert_waypoints_to_route UNKNOWN iter_codes waypoints station_data path_data
      = Inl KeyError"
    by (simp add: convert_waypoints_to_route_def)
next
  assume a: "(\<forall>w \<in> set waypoints. codes_to_station iter_codes station_data (code w) \<noteq> None)
      \<and> complete_paths path_data"
  then have k: "\<forall>w \<in> set waypoints. codes_to_station iter_codes station_data (code w) \<noteq> None"
    and c: "complete_paths path_data" by simp_all
  from assembly_total [OF k c, of UNKNOWN] obtain tracks_used where
    t: "hops UNKNOWN (codes_to_station iter_codes station_data) (route_number_to_path path_data)
          (zip waypoints (drop 1 waypoints)) [] = Inr tracks_used"
       "\<forall>i < length tracks_used.
          route_unknown (route_number_to_path path_data) (waypoints ! i) \<longrightarrow>
          tracks_used ! i = [invalid_track UNKNOWN (next_route_number (waypoints ! i))]"
    by blast
  from t(1) have "convert_waypoints_to_route UNKNOWN iter_codes waypoints station_data path_data
        = Inr \<lparr>route_waypoints = waypoints, route_tracks = tracks_used\<rparr>"
    by (simp add: convert_waypoints_to_route_def)
  with t(2) show "\<exists>tracks_used.
            convert_waypoints_to_route UNKNOWN iter_codes waypoints station_data path_data
              = Inr \<lparr>route_waypoints = waypoints, route_tracks = tracks_used\<rparr>
          \<and> (\<forall>i < length tracks_used.
                route_unknown (route_number_to_path path_data) (waypoints ! i) \<longrightarrow>
                tracks_used ! i = [invalid_track UNKNOWN (next_route_number (waypoints ! i))])"
    by blast
qed

text \<open>
  The theorem of claim C4 at a list with an unknown station code and at a list with a
  route number that is not in the catalog.
\<close>

theorem C4_lookup_miss_witness:
  "convert_waypoints_to_route 9 each_code
     [waypoint_at 0 [65] (Some 100), waypoint_at 3 [88] None]
     [station_at [65] (km_100 5)] [] = Inl KeyError
   \<and> (\<exists>tracks_used.
        convert_waypoints_to_route 9 each_code
          [waypoint_at 0 [65] (Some 999), waypoint_at 3 [66] None]
          [station_at [65] (km_100 5), station_at [66] (km_100 12)]
          [\<lparr>route_numer = 100, tracks = [track_span True 1 0 6]\<rparr>]
        = Inr \<lparr>route_waypoints = [waypoint_at 0 [65] (Some 999), waypoint_at 3 [66] None],
               route_tracks = tracks_used\<rparr>
        \<and> tracks_used ! 0 = [invalid_track 9 (Some 999)])"
proof -
  let ?ws1 = "[waypoint_at 0 [65] (Some 100), waypoint_at 3 [88] None]"
  let ?sd1 = "[station_at [65] (km_100 5)]"
  let ?ws2 = "[waypoint_at 0 [65] (Some 999), waypoint_at 3 [66] None]"
  let ?sd2 = "[station_at [65] (km_100 5), station_at [66] (km_100 12)]"
  let ?pd2 = "[\<lparr>route_numer = 100, tracks = [track_span True 1 0 6]\<rparr>]"
  have h1: "2 \<le> length ?ws1 \<and> (\<exists>w \<in> set ?ws1. codes_to_station each_code ?sd1 (code w) = None)"
    by (simp add: codes_to_station_def dict_of_def each_code_def station_at_def waypoint_at_def)
  have h1': "complete_paths []" by (simp add: complete_paths_def)
  have h2: "(\<forall>w \<in> set ?ws2. codes_to_station each_code ?sd2 (code w) \<noteq> None) \<and> complete_paths ?pd2"
    by (simp add: codes_to_station_def dict_of_def each_code_def station_at_def waypoint_at_def
        complete_paths_def track_span_def)
  have h3: "route_unknown (route_number_to_path ?pd2) (?ws2 ! 0)"
    by (simp add: route_unknown_def route_number_to_path_def dict_of_def waypoint_at_def)
  from C4_lookup_miss [of ?ws1 each_code ?sd1 9 "[]"] h1 h1'
  have a: "convert_waypoints_to_route 9 each_code ?ws1 ?sd1 [] = Inl KeyError" by blast
  from C4_lookup_miss [of ?ws2 each_code ?sd2 9 ?pd2] h2 obtain tracks_used where
    t: "convert_waypoints_to_route 9 each_code ?ws2 ?sd2 ?pd2
          = Inr \<lparr>route_waypoints = ?ws2, route_tracks = tracks_used\<rparr>"
       "\<forall>i < length tracks_used. route_unknown (route_number_to_path ?pd2) (?ws2 ! i) \<longrightarrow>
          tracks_used ! i = [invalid_track 9 (next_route_number (?ws2 ! i))]"
    by blast
  from t(1) have "length tracks_used = 1" by (auto simp: example_defs)
  with t(2) h3 have "tracks_used ! 0 = [invalid_track 9 (Some 999)]"
    by (simp add: waypoint_at_def)
  with a t(1) show ?thesis by blast
qed

text \<open>
  Claim C4 as stated fails: the code of the second waypoint is not in the station catalog,
  and the call raises \<open>KeyError\<close>.
\<close>

theorem C4_unknown_code_counterexample:
  "convert_waypoints_to_route 9 each_code
     [waypoint_at 0 [65] (Some 100), waypoint_at 3 [88] None]
     [station_at [65] (km_100 5)]
     [\<lparr>route_numer = 100, tracks = [track_span True 1 0 6]\<rparr>]
   = Inl KeyError"
  by (simp add: example_defs)

section \<open>Properties of the name normalization\<close>

subsection \<open>Replacing saint\<close>

lemma replace_saint_fixed: "no_saint s \<Longrightarrow> replace_saint s = s"
  by (induction s) auto

lemma replace_saint_head:
  assumes "replace_saint cs = x # r" "x \<noteq> 115"
  shows "\<exists>cs'. cs = x # cs' \<and> r = replace_saint cs'"
  using assms by (cases cs) (auto split: if_splits)

lemma take_eq_Cons_iff:
  "take n xs = y # ys \<longleftrightarrow> (\<exists>m zs. n = Suc m \<and> xs = y # zs \<and> take m zs = ys)"
  by (cases n; cases xs) auto

lemma take_4_eq:
  "take 4 xs = [a, b, c, d] \<longleftrightarrow> (\<exists>zs. xs = a # b # c # d # zs)"
  by (auto simp: take_eq_Cons_iff)

lemma take_5_saint:
  "take 5 (c # cs) = saint \<longleftrightarrow> c = 115 \<and> (\<exists>zs. cs = 97 # 105 # 110 # 116 # zs)"
  by (auto simp: saint_def take_eq_Cons_iff)

lemma replace_saint_aint:
  assumes "replace_saint cs = 97 # 105 # 110 # 116 # zs"
  shows "\<exists>zs'. cs = 97 # 105 # 110 # 116 # zs'"
proof -
  from replace_saint_head [OF assms] obtain c1 where
    c1: "cs = 97 # c1" "105 # 110 # 116 # zs = replace_saint c1" by auto
  from replace_saint_head [OF c1(2) [symmetric]] obtain c2 where
    c2: "c1 = 105 # c2" "110 # 116 # zs = replace_saint c2" by auto
  from replace_saint_head [OF c2(2) [symmetric]] obtain c3 where
    c3: "c2 = 110 # c3" "116 # zs = replace_saint c3" by auto
  from replace_saint_head [OF c3(2) [symmetric]] obtain c4 where
    c4: "c3 = 116 # c4" by auto
  show ?thesis by (simp add: c1 c2 c3 c4)
qed

lemma no_saint_replace_saint: "no_saint (replace_saint s)"
proof (induction s rule: replace_saint.induct)
  case 1
  show ?case by simp
next
  case (2 c cs)
  show ?case
  proof (cases "take 5 (c # cs) = saint")
    case True
    with 2 have "no_saint (replace_saint (drop 4 cs))" by simp
    with True show ?thesis by (simp add: saint_def)
  next
    case False
    with 2 have ih: "no_saint (replace_saint cs)" by simp
    have "take 5 (c # replace_saint cs) \<noteq> saint"
    proof
      assume "take 5 (c # replace_saint cs) = saint"
      then obtain zs where "c = 115" "replace_saint cs = 97 # 105 # 110 # 116 # zs"
        unfolding take_5_saint by blast
      with replace_saint_aint [of cs zs] have "take 5 (c # cs) = saint"
        unfolding take_5_saint by blast
      with False show False by simp
    qed
    with ih False show ?thesis by simp
  qed
qed

lemma set_replace_saint: "set (replace_saint s) \<subseteq> set s"
proof (induction s rule: replace_saint.induct)
  case 1
  show ?case by simp
next
  case (2 c cs)
  show ?case
  proof (cases "take 5 (c # cs) = saint")
    case True
    with 2 have ih: "set (replace_saint (drop 4 cs)) \<subseteq> set (drop 4 cs)" by simp
    have "set (drop 4 cs) \<subseteq> set cs" by (rule set_drop_subset)
    moreover from True have "c = 115" "116 \<in> set cs" unfolding take_5_saint by auto
    ultimately show ?thesis using True ih by auto
  next
    case False
    with 2 show ?thesis by auto
  qed
qed

subsection \<open>Runs of whitespace\<close>

lemma more_than_one_space_sub_fixed: "no_run s \<Longrightarrow> more_than_one_space_sub s = s"
  by (induction s rule: no_run.induct) auto

lemma more_than_one_space_sub_head:
  "more_than_one_space_sub (d # cs) = x # r \<Longrightarrow> is_space x = is_space d"
  by (cases cs) (auto simp: is_space_def split: if_splits)

lemma more_than_one_space_sub_Nil: "more_than_one_space_sub s = [] \<longleftrightarrow> s = []"
  by (cases s rule: more_than_one_space_sub.cases) auto

lemma no_run_Cons:
  "no_run (c # s) \<longleftrightarrow> (s = [] \<or> (\<not> (is_space c \<and> is_space (hd s)) \<and> no_run s))"
  by (cases s) auto

lemma no_run_more_than_one_space_sub: "no_run (more_than_one_space_sub s)"
proof (induction s rule: more_than_one_space_sub.induct)
  case 1
  show ?case by simp
next
  case (2 c)
  show ?case by simp
next
  case (3 c d cs)
  show ?case
  proof (cases "is_space c \<and> is_space d")
    case True
    with 3 have ih: "no_run (more_than_one_space_sub (dropWhile is_space cs))" by simp
    have "more_than_one_space_sub (dropWhile is_space cs) = []
        \<or> \<not> is_space (hd (more_than_one_space_sub (dropWhile is_space cs)))"
    proof (cases "dropWhile is_space cs")
      case Nil
      then have "more_than_one_space_sub (dropWhile is_space cs) = []"
        by (simp only: more_than_one_space_sub.simps)
      then show ?thesis by blast
    next
      case (Cons x xs)
      then have nx: "\<not> is_space x" by (metis hd_dropWhile list.sel(1) list.distinct(1))
      obtain y r where yr: "more_than_one_space_sub (x # xs) = y # r"
        by (cases "more_than_one_space_sub (x # xs)") (simp_all add: more_than_one_space_sub_Nil)
      from more_than_one_space_sub_head [OF yr] nx show ?thesis by (simp add: Cons yr)
    qed
    with ih True show ?thesis by (auto simp: no_run_Cons)
  next
    case False
    with 3 have ih: "no_run (more_than_one_space_sub (d # cs))" by simp
    obtain y r where yr: "more_than_one_space_sub (d # cs) = y # r"
      by (cases "more_than_one_space_sub (d # cs)") (simp_all add: more_than_one_space_sub_Nil)
    from more_than_one_space_sub_head [OF yr] have "is_space y = is_space d" .
    with ih False yr show ?thesis by (auto simp: no_run_Cons)
  qed
qed

lemma set_more_than_one_space_sub: "set (more_than_one_space_sub s) \<subseteq> insert 32 (set s)"
proof (induction s rule: more_than_one_space_sub.induct)
  case (3 c d cs)
  show ?case
  proof (cases "is_space c \<and> is_space d")
    case True
    with 3 have "set (more_than_one_space_sub (dropWhile is_space cs))
        \<subseteq> insert 32 (set (dropWhile is_space cs))" by simp
    moreover have "set (dropWhile is_space cs) \<subseteq> set cs" by (rule set_dropWhileD [THEN subsetI])
    ultimately show ?thesis using True by auto
  next
    case False
    with 3 show ?thesis by auto
  qed
qed simp_all

lemma replace_saint_hd:
  "replace_saint s = x # r \<Longrightarrow> x = 115 \<or> (\<exists>cs. s = x # cs)"
  by (cases s) (auto split: if_splits)

lemma no_run_replace_saint: "no_run s \<Longrightarrow> no_run (replace_saint s)"
proof (induction s rule: replace_saint.induct)
  case 1
  show ?case by simp
next
  case (2 c cs)
  have ns: "\<not> is_space 115" "\<not> is_space 116" by (simp_all add: is_space_def)
  show ?case
  proof (cases "take 5 (c # cs) = saint")
    case True
    have "no_run (drop n xs)" if "no_run xs" for n xs
      using that
    proof (induction n arbitrary: xs)
      case 0 then show ?case by simp
    next
      case (Suc n)
      then show ?case by (cases xs) (auto simp: no_run_Cons)
    qed
    from this [of "c # cs" 5] "2.prems" have "no_run (drop 4 cs)" by simp
    with 2 True have "no_run (replace_saint (drop 4 cs))" by simp
    with True ns show ?thesis by (simp add: no_run_Cons)
  next
    case False
    from "2.prems" have "no_run cs" by (auto simp: no_run_Cons)
    with 2 False have ih: "no_run (replace_saint cs)" by simp
    have "replace_saint cs = [] \<or> \<not> (is_space c \<and> is_space (hd (replace_saint cs)))"
    proof (cases "replace_saint cs")
      case Nil
      then show ?thesis by simp
    next
      case (Cons x r)
      from replace_saint_hd [OF Cons] show ?thesis
      proof
        assume "x = 115"
        with ns Cons show ?thesis by simp
      next
        assume "\<exists>cs'. cs = x # cs'"
        then obtain cs' where "cs = x # cs'" ..
        with "2.prems" Cons show ?thesis by simp
      qed
    qed
    with ih False show ?thesis by (auto simp: no_run_Cons)
  qed
qed


subsection \<open>Idempotence\<close>

text \<open>The result of the four substitutions is left unchanged by each of them.\<close>

lemma substitutions_fixed:
  fixes u :: pystr
  defines "t \<equiv> replace_saint (more_than_one_space_sub (omitted_tokens_sub (delimiters_sub u)))"
  shows "replace_saint (more_than_one_space_sub (omitted_tokens_sub (delimiters_sub t))) = t"
    and "set t \<subseteq> insert 32 (set u)"
proof -
  let ?d = "delimiters_sub u"
  let ?o = "omitted_tokens_sub ?d"
  let ?m = "more_than_one_space_sub ?o"
  have d: "45 \<notin> set ?d" "95 \<notin> set ?d" "set ?d \<subseteq> insert 32 (set u)"
    by (auto simp: delimiters_sub_def)
  have o: "set ?o \<subseteq> set ?d" "46 \<notin> set ?o" "39 \<notin> set ?o"
    by (auto simp: omitted_tokens_sub_def)
  have m: "set ?m \<subseteq> insert 32 (set ?o)" by (rule set_more_than_one_space_sub)
  have t: "set t \<subseteq> set ?m" unfolding t_def by (rule set_replace_saint)
  from d o m t have chars: "45 \<notin> set t" "95 \<notin> set t" "46 \<notin> set t" "39 \<notin> set t"
    by auto
  from d o m t show "set t \<subseteq> insert 32 (set u)" by auto
  have "delimiters_sub t = t"
    unfolding delimiters_sub_def using chars(1,2) by (intro map_idI) auto
  moreover have "omitted_tokens_sub t = t"
    unfolding omitted_tokens_sub_def using chars(3,4) by (auto simp: filter_id_conv)
  moreover have "no_run t"
    unfolding t_def by (intro no_run_replace_saint no_run_more_than_one_space_sub)
  then have "more_than_one_space_sub t = t" by (rule more_than_one_space_sub_fixed)
  moreover have "no_saint t" unfolding t_def by (rule no_saint_replace_saint)
  then have "replace_saint t = t" by (rule replace_saint_fixed)
  ultimately show "replace_saint (more_than_one_space_sub (omitted_tokens_sub (delimiters_sub t))) = t"
    by simp
qed

lemma lower_fixed: "is_ascii t \<Longrightarrow> no_capitals t \<Longrightarrow> lower L t = t"
  by (auto simp: lower_def no_capitals_def lower_char_def list_all_iff intro!: map_idI)

lemma lower_ascii: "is_ascii s \<Longrightarrow> is_ascii (lower L s) \<and> no_capitals (lower L s)"
  by (auto simp: lower_def is_ascii_def no_capitals_def lower_char_def list_all_iff)

text \<open>
  Claim C9, as amended. \<open>normalize_name\<close> is idempotent at every string \<open>s\<close> whose
  transliteration \<open>unidecode(s.lower())\<close> consists of ASCII characters without capital
  letters, and so at every ASCII string, whatever the two library functions do on other
  strings.
\<close>

theorem C9_normalize_name_idempotent:
  "(is_ascii (unidecode U (lower L s)) \<and> no_capitals (unidecode U (lower L s))
      \<longrightarrow> normalize_name L U (normalize_name L U s) = normalize_name L U s)
   \<and> (is_ascii s \<longrightarrow> normalize_name L U (normalize_name L U s) = normalize_name L U s)"
proof -
  have main: "normalize_name L U (normalize_name L U s) = normalize_name L U s"
    if a: "is_ascii (unidecode U (lower L s))" and c: "no_capitals (unidecode U (lower L s))"
    for s
  proof -
    let ?u = "unidecode U (lower L s)"
    let ?t = "normalize_name L U s"
    have sub: "set ?t \<subseteq> insert 32 (set ?u)"
      unfolding normalize_name_def by (rule substitutions_fixed(2))
    with a c have "is_ascii ?t" "no_capitals ?t"
      by (auto simp: is_ascii_def no_capitals_def list_all_iff)
    then have "unidecode U (lower L ?t) = ?t"
      by (simp add: lower_fixed unidecode_def)
    then have "normalize_name L U ?t
        = replace_saint (more_than_one_space_sub (omitted_tokens_sub (delimiters_sub ?t)))"
      by (simp add: normalize_name_def [of L U ?t])
    also have "\<dots> = ?t"
      unfolding normalize_name_def [of L U s] by (rule substitutions_fixed(1))
    finally show ?thesis .
  qed
  have "normalize_name L U (normalize_name L U s) = normalize_name L U s" if "is_ascii s"
  proof -
    from that lower_ascii [of s L]
    have "is_ascii (unidecode U (lower L s))" "no_capitals (unidecode U (lower L s))"
      by (simp_all add: unidecode_def)
    then show ?thesis by (rule main)
  qed
  with main show ?thesis by blast
qed

text \<open>
  The theorem of claim C9 at an ASCII name with capitals, a full stop, a hyphen, a run of
  spaces, an apostrophe and the word saint.
\<close>

theorem C9_normalize_name_idempotent_witness:
  "normalize_name lower_sample unidecode_sample
     (normalize_name lower_sample unidecode_sample (ascii ''St. Saint-Jean  d'Arc''))
   = normalize_name lower_sample unidecode_sample (ascii ''St. Saint-Jean  d'Arc'')"
proof -
  have h: "is_ascii (ascii ''St. Saint-Jean  d'Arc'')"
    by (simp add: is_ascii_def ascii_def)
  then have "is_ascii (unidecode unidecode_sample (lower lower_sample (ascii ''St. Saint-Jean  d'Arc'')))
      \<and> no_capitals (unidecode unidecode_sample (lower lower_sample (ascii ''St. Saint-Jean  d'Arc'')))"
    using lower_ascii [of "ascii ''St. Saint-Jean  d'Arc''" lower_sample] by (simp add: unidecode_def)
  with C9_normalize_name_idempotent [of unidecode_sample lower_sample "ascii ''St. Saint-Jean  d'Arc''"] h
  show ?thesis by blast
qed

text \<open>
  Claim C9 as stated fails: the characters U+5317 U+4EB0 have no lower case, their
  transliteration has capital letters, and normalizing the result once more lowers them.
\<close>

theorem C9_capitals_counterexample:
  "normalize_name lower_sample unidecode_sample [21271, 20144] = ascii ''Bei Jing ''
   \<and> normalize_name lower_sample unidecode_sample (ascii ''Bei Jing '') = ascii ''bei jing ''
   \<and> normalize_name lower_sample unidecode_sample (normalize_name lower_sample unidecode_sample [21271, 20144])
       \<noteq> normalize_name lower_sample unidecode_sample [21271, 20144]"
proof -
  have a: "normalize_name lower_sample unidecode_sample [21271, 20144] = ascii ''Bei Jing ''"
    by (simp add: normalize_name_def ascii_def is_ascii_def lower_def unidecode_def lower_sample_def
        unidecode_sample_def delimiters_sub_def omitted_tokens_sub_def is_space_def saint_def)
  have b: "normalize_name lower_sample unidecode_sample (ascii ''Bei Jing '') = ascii ''bei jing ''"
    by (simp add: normalize_name_def ascii_def is_ascii_def lower_def unidecode_def lower_char_def
        delimiters_sub_def omitted_tokens_sub_def is_space_def saint_def)
  have "ascii ''bei jing '' \<noteq> ascii ''Bei Jing ''" by (simp add: ascii_def)
  with a b show ?thesis by simp
qed

section \<open>Properties of the walk along the trace\<close>

lemma find_stop:
  assumes "find P kvs = Some kv" "distinct (map fst kvs)"
  shows "kv \<in> set kvs" "length (dict_pop (fst kv) kvs) + 1 = length kvs"
proof -
  from assms(1) show m: "kv \<in> set kvs" by (auto simp: find_Some_iff)
  from assms(2) m show "length (dict_pop (fst kv) kvs) + 1 = length kvs"
  proof (induction kvs)
    case Nil
    then show ?case by simp
  next
    case (Cons a kvs)
    show ?case
    proof (cases "a = kv")
      case True
      with Cons.prems have "\<forall>x \<in> set kvs. fst x \<noteq> fst kv" by (auto simp: image_iff)
      then have "filter (\<lambda>x. fst x \<noteq> fst kv) kvs = kvs" by (simp add: filter_id_conv)
      with True show ?thesis by (simp add: dict_pop_def)
    next
      case False
      with Cons.prems have "kv \<in> set kvs" "fst a \<noteq> fst kv" by (auto simp: image_iff)
      with Cons show ?thesis by (simp add: dict_pop_def)
    qed
  qed
qed

lemma dict_pop_keeps:
  "distinct (map fst kvs) \<Longrightarrow> distinct (map fst (dict_pop k kvs))"
  "list_all P kvs \<Longrightarrow> list_all P (dict_pop k kvs)"
  by (auto simp: dict_pop_def distinct_map_filter list_all_iff)

lemma segments_extend:
  assumes "l \<le> index"
  shows "take l points @ slice points l index = take index points"
proof -
  have "take l (take index points) @ drop l (take index points) = take index points"
    by (rule append_take_drop_id)
  moreover from assms have "take l (take index points) = take l points"
    by (simp add: min_absorb1)
  ultimately show ?thesis unfolding slice_def by simp
qed

text \<open>One step of the walk returns and keeps both invariants.\<close>

lemma walk_step_inv:
  assumes "walk_inv points n index w"
  shows "\<exists>w'. walk_step distance_float points index trackpoint w = Inr w'
           \<and> walk_inv points n (Suc index) w'
           \<and> ((\<forall>a b. 0 \<le> distance_float a b) \<longrightarrow> distances_inv w \<longrightarrow> distances_inv w')"
proof -
  let ?total = "case last_location w of
                  Some l \<Rightarrow> distance_total w + distance_float trackpoint l
                | None \<Rightarrow> distance_total w"
  have grow: "distance_total w \<le> ?total" if "\<forall>a b. 0 \<le> distance_float a b"
    using that by (auto split: option.splits)
  show ?thesis
  proof (cases "find (\<lambda>kv. distance_float (fst kv) trackpoint < 8 / 100) (open_stops w)")
    case None
    let ?w' = "w\<lparr>distance_total := ?total, last_location := Some trackpoint\<rparr>"
    have "walk_step distance_float points index trackpoint w = Inr ?w'"
      unfolding walk_step_def Let_def None by simp
    moreover from assms have "walk_inv points n (Suc index) ?w'"
      by (simp add: walk_inv_def)
    moreover have "distances_inv ?w'"
      if "\<forall>a b. 0 \<le> distance_float a b" "distances_inv w"
      using that(2) grow [OF that(1)] by (fastforce simp: distances_inv_def list_all_iff)
    ultimately show ?thesis by blast
  next
    case (Some kv)
    obtain waypoint_location stop where kv: "kv = (waypoint_location, stop)" by (cases kv)
    from assms have d: "distinct (map fst (open_stops w))"
      and c: "list_all (\<lambda>kv. codes (snd kv) \<noteq> []) (open_stops w)"
      by (simp_all add: walk_inv_def)
    from find_stop [OF Some d] have m: "kv \<in> set (open_stops w)"
      and l: "length (dict_pop waypoint_location (open_stops w)) + 1 = length (open_stops w)"
      by (simp_all add: kv)
    from m c obtain c0 cs0 where cs: "codes stop = c0 # cs0"
      by (cases "codes stop") (auto simp: kv list_all_iff)
    let ?w' = "w\<lparr>distance_total := ?total,
                 code_waypoints := code_waypoints w @
                   [\<lparr>distance_from_start = ?total, code = c0, is_stop = True,
                     next_route_number = Some 0\<rparr>],
                 track_paths := track_paths w @
                   [(slice points (last_stop_index w) index, stop)],
                 last_stop_index := index,
                 open_stops := dict_pop waypoint_location (open_stops w),
                 last_location := Some trackpoint\<rparr>"
    have "walk_step distance_float points index trackpoint w = Inr ?w'"
      unfolding walk_step_def Let_def Some by (simp add: kv cs)
    moreover have "walk_inv points n (Suc index) ?w'"
    proof -
      from assms have "last_stop_index w \<le> index"
        "concat (map fst (track_paths w)) = take (last_stop_index w) points"
        "length (track_paths w) = length (code_waypoints w)"
        "length (code_waypoints w) + length (open_stops w) = n"
        by (simp_all add: walk_inv_def)
      with l dict_pop_keeps(1) [OF d] dict_pop_keeps(2) [OF c] segments_extend [of "last_stop_index w" index points]
      show ?thesis by (simp add: walk_inv_def)
    qed
    moreover have "distances_inv ?w'"
      if "\<forall>a b. 0 \<le> distance_float a b" "distances_inv w"
      using that(2) grow [OF that(1)]
      by (fastforce simp: distances_inv_def list_all_iff sorted_append)
    ultimately show ?thesis by blast
  qed
qed

lemma trace_walk_inv:
  assumes "walk_inv points n index w"
  shows "\<exists>w'. trace_walk distance_float points index rest w = Inr w'
           \<and> walk_inv points n (index + length rest) w'
           \<and> ((\<forall>a b. 0 \<le> distance_float a b) \<longrightarrow> distances_inv w \<longrightarrow> distances_inv w')"
  using assms
proof (induction rest arbitrary: index w)
  case Nil
  then show ?case by simp
next
  case (Cons trackpoint rest)
  from walk_step_inv [OF Cons.prems, of distance_float trackpoint] obtain w1 where
    w1: "walk_step distance_float points index trackpoint w = Inr w1"
        "walk_inv points n (Suc index) w1"
        "(\<forall>a b. 0 \<le> distance_float a b) \<longrightarrow> distances_inv w \<longrightarrow> distances_inv w1"
    by blast
  from Cons.IH [OF w1(2)] obtain w' where
    w': "trace_walk distance_float points (Suc index) rest w1 = Inr w'"
        "walk_inv points n (Suc index + length rest) w'"
        "(\<forall>a b. 0 \<le> distance_float a b) \<longrightarrow> distances_inv w1 \<longrightarrow> distances_inv w'"
    by blast
  from w1 w' show ?case by auto
qed

lemma init_walk_inv:
  assumes "distinct (map fst stops)" "list_all (\<lambda>kv. codes (snd kv) \<noteq> []) stops"
  shows "walk_inv points (length stops) 0 (init_walk stops)" "distances_inv (init_walk stops)"
  using assms by (simp_all add: walk_inv_def distances_inv_def init_walk_def)

text \<open>Every match is a hint within the threshold of the track point at its index, and the
  indices of the matches increase strictly.\<close>

lemma matched_hints_indices:
  "(\<forall>m \<in> set (matched_hints d index rest hints).
       index \<le> fst m \<and> fst m < index + length rest \<and> snd m \<in> set hints
       \<and> d (fst (snd m)) (rest ! (fst m - index)) < 8 / 100)
   \<and> sorted_wrt (<) (map fst (matched_hints d index rest hints))"
proof (induction rest arbitrary: index hints)
  case Nil
  show ?case by simp
next
  case (Cons p rest)
  show ?case
  proof (cases "find (\<lambda>kv. d (fst kv) p < 8 / 100) hints")
    case None
    have "index \<le> fst m \<and> fst m < index + length (p # rest) \<and> snd m \<in> set hints
          \<and> d (fst (snd m)) ((p # rest) ! (fst m - index)) < 8 / 100"
      if "m \<in> set (matched_hints d (Suc index) rest hints)" for m
    proof -
      from Cons [of "Suc index" hints] that
      have m: "Suc index \<le> fst m" "fst m < Suc index + length rest" "snd m \<in> set hints"
        "d (fst (snd m)) (rest ! (fst m - Suc index)) < 8 / 100" by blast+
      from m(1) have "(p # rest) ! (fst m - index) = rest ! (fst m - Suc index)"
        by (simp add: nth_Cons' Suc_diff_le)
      with m show ?thesis by simp
    qed
    with Cons [of "Suc index" hints] None show ?thesis
      unfolding matched_hints.simps by (simp only: option.case) blast
  next
    case (Some kv)
    let ?hints' = "dict_pop (fst kv) hints"
    from Some have kv: "kv \<in> set hints" "d (fst kv) p < 8 / 100"
      by (auto simp: find_Some_iff)
    have sub: "set ?hints' \<subseteq> set hints" by (auto simp: dict_pop_def)
    have tl: "index < fst m \<and> index \<le> fst m \<and> fst m < index + length (p # rest) \<and> snd m \<in> set hints
          \<and> d (fst (snd m)) ((p # rest) ! (fst m - index)) < 8 / 100"
      if "m \<in> set (matched_hints d (Suc index) rest ?hints')" for m
    proof -
      from Cons [of "Suc index" ?hints'] that
      have m: "Suc index \<le> fst m" "fst m < Suc index + length rest" "snd m \<in> set ?hints'"
        "d (fst (snd m)) (rest ! (fst m - Suc index)) < 8 / 100" by blast+
      from m(1) have "(p # rest) ! (fst m - index) = rest ! (fst m - Suc index)"
        by (simp add: nth_Cons' Suc_diff_le)
      with m sub show ?thesis by auto
    qed
    have eq: "matched_hints d index (p # rest) hints
        = (index, kv) # matched_hints d (Suc index) rest ?hints'"
      unfolding matched_hints.simps Some by (simp only: option.case)
    have "sorted_wrt (<) (map fst (matched_hints d (Suc index) rest ?hints'))"
      using Cons [of "Suc index" ?hints'] by blast
    moreover have "\<forall>m \<in> set (matched_hints d (Suc index) rest ?hints'). index < fst m"
      using tl by force
    ultimately have "sorted_wrt (<) (map fst (matched_hints d index (p # rest) hints))"
      unfolding eq by simp
    moreover have "\<forall>m \<in> set (matched_hints d index (p # rest) hints).
       index \<le> fst m \<and> fst m < index + length (p # rest) \<and> snd m \<in> set hints
       \<and> d (fst (snd m)) ((p # rest) ! (fst m - index)) < 8 / 100"
    proof
      fix m assume "m \<in> set (matched_hints d index (p # rest) hints)"
      then consider "m = (index, kv)" | "m \<in> set (matched_hints d (Suc index) rest ?hints')"
        unfolding eq by auto
      then show "index \<le> fst m \<and> fst m < index + length (p # rest) \<and> snd m \<in> set hints
          \<and> d (fst (snd m)) ((p # rest) ! (fst m - index)) < 8 / 100"
      proof cases
        case 1
        with kv show ?thesis by simp
      next
        case 2
        from tl [OF this] show ?thesis by blast
      qed
    qed
    ultimately show ?thesis by blast
  qed
qed

text \<open>The walk records one segment per match of the specification, cut at the indices of
  the matches, and emits one waypoint per match.\<close>

lemma trace_walk_segments:
  assumes "list_all (\<lambda>kv. codes (snd kv) \<noteq> []) (open_stops w)"
  shows "\<exists>w'. trace_walk d points index rest w = Inr w'
     \<and> track_paths w' = track_paths w @
         zip (segments_between points (last_stop_index w)
                (map fst (matched_hints d index rest (open_stops w))))
             (map (\<lambda>m. snd (snd m)) (matched_hints d index rest (open_stops w)))
     \<and> map code (code_waypoints w') = map code (code_waypoints w) @
         map (\<lambda>m. hd (codes (snd (snd m)))) (matched_hints d index rest (open_stops w))
     \<and> last_stop_index w' =
         (if matched_hints d index rest (open_stops w) = [] then last_stop_index w
          else fst (last (matched_hints d index rest (open_stops w))))"
  using assms
proof (induction rest arbitrary: index w)
  case Nil
  show ?case by simp
next
  case (Cons p rest)
  let ?total = "case last_location w of
                  Some l \<Rightarrow> distance_total w + d p l
                | None \<Rightarrow> distance_total w"
  show ?case
  proof (cases "find (\<lambda>kv. d (fst kv) p < 8 / 100) (open_stops w)")
    case None
    let ?w1 = "w\<lparr>distance_total := ?total, last_location := Some p\<rparr>"
    have step: "walk_step d points index p w = Inr ?w1"
      unfolding walk_step_def Let_def None by simp
    have eq: "matched_hints d index (p # rest) (open_stops w)
        = matched_hints d (Suc index) rest (open_stops ?w1)"
      unfolding matched_hints.simps None by simp
    from Cons.prems have "list_all (\<lambda>kv. codes (snd kv) \<noteq> []) (open_stops ?w1)" by simp
    from Cons.IH [OF this, of "Suc index"] obtain w' where
      w': "trace_walk d points (Suc index) rest ?w1 = Inr w'"
          "track_paths w' = track_paths ?w1 @
             zip (segments_between points (last_stop_index ?w1)
                    (map fst (matched_hints d (Suc index) rest (open_stops ?w1))))
                 (map (\<lambda>m. snd (snd m)) (matched_hints d (Suc index) rest (open_stops ?w1)))"
          "map code (code_waypoints w') = map code (code_waypoints ?w1) @
             map (\<lambda>m. hd (codes (snd (snd m))))
               (matched_hints d (Suc index) rest (open_stops ?w1))"
          "last_stop_index w' =
             (if matched_hints d (Suc index) rest (open_stops ?w1) = []
              then last_stop_index ?w1
              else fst (last (matched_hints d (Suc index) rest (open_stops ?w1))))"
      by blast
    from step w'(1) have "trace_walk d points index (p # rest) w = Inr w'" by simp
    with w'(2,3,4) show ?thesis
      unfolding eq by (intro exI [of _ w']) simp
  next
    case (Some kv)
    obtain waypoint_location stop where kv: "kv = (waypoint_location, stop)" by (cases kv)
    from Some have m: "kv \<in> set (open_stops w)" by (auto simp: find_Some_iff)
    with Cons.prems obtain c0 cs0 where cs: "codes stop = c0 # cs0"
      by (cases "codes stop") (auto simp: kv list_all_iff)
    let ?w1 = "w\<lparr>distance_total := ?total,
                 code_waypoints := code_waypoints w @
                   [\<lparr>distance_from_start = ?total, code = c0, is_stop = True,
                     next_route_number = Some 0\<rparr>],
                 track_paths := track_paths w @
                   [(slice points (last_stop_index w) index, stop)],
                 last_stop_index := index,
                 open_stops := dict_pop waypoint_location (open_stops w),
                 last_location := Some p\<rparr>"
    have step: "walk_step d points index p w = Inr ?w1"
      unfolding walk_step_def Let_def Some by (simp add: kv cs)
    have eq: "matched_hints d index (p # rest) (open_stops w)
        = (index, kv) # matched_hints d (Suc index) rest (open_stops ?w1)"
      unfolding matched_hints.simps Some by (simp add: kv)
    from Cons.prems have "list_all (\<lambda>kv. codes (snd kv) \<noteq> []) (open_stops ?w1)"
      by (simp add: dict_pop_keeps(2))
    from Cons.IH [OF this, of "Suc index"] obtain w' where
      w': "trace_walk d points (Suc index) rest ?w1 = Inr w'"
          "track_paths w' = track_paths ?w1 @
             zip (segments_between points (last_stop_index ?w1)
                    (map fst (matched_hints d (Suc index) rest (open_stops ?w1))))
                 (map (\<lambda>m. snd (snd m)) (matched_hints d (Suc index) rest (open_stops ?w1)))"
          "map code (code_waypoints w') = map code (code_waypoints ?w1) @
             map (\<lambda>m. hd (codes (snd (snd m))))
               (matched_hints d (Suc index) rest (open_stops ?w1))"
          "last_stop_index w' =
             (if matched_hints d (Suc index) rest (open_stops ?w1) = []
              then last_stop_index ?w1
              else fst (last (matched_hints d (Suc index) rest (open_stops ?w1))))"
      by blast
    from step w'(1) have "trace_walk d points index (p # rest) w = Inr w'" by simp
    with w'(2,3,4) show ?thesis
      unfolding eq by (intro exI [of _ w']) (simp add: kv cs)
  qed
qed

text \<open>The entry \<open>k\<close> of the segments runs from the cut before it (from \<open>start\<close> for the
  first entry) up to the cut \<open>k\<close>.\<close>

lemma segments_between_nth:
  "k < length cuts \<Longrightarrow>
   segments_between xs start cuts ! k = slice xs ((start # cuts) ! k) (cuts ! k)"
proof (induction cuts arbitrary: start k)
  case Nil
  then show ?case by simp
next
  case (Cons i cuts)
  then show ?case by (cases k) simp_all
qed

lemma segments_between_length: "length (segments_between xs start cuts) = length cuts"
  by (induction cuts arbitrary: start) simp_all

text \<open>
  Claim C6, as amended. For a dict of stops with distinct keys whose stations have a code
  each, the walk of \<open>import_data\<close> returns, and \<open>track_paths\<close> has exactly one entry per
  matched station hint, as \<open>code_waypoints\<close> has: there is no additional segment. The
  matches are those of the specification, at strictly increasing indices of the trace.
  The first entry is the leading portion of the trace before the first match, each later
  entry runs from the previous match up to the next, each paired with the matched
  station; the points from the last match on are not recorded.
\<close>

theorem C6_one_segment_per_match:
  assumes "distinct (map fst stops)" and "list_all (\<lambda>kv. codes (snd kv) \<noteq> []) stops"
  shows "\<exists>w. trace_walk distance_float points 0 points (init_walk stops) = Inr w
     \<and> length (track_paths w) = length (matched_hints distance_float 0 points stops)
     \<and> length (code_waypoints w) = length (matched_hints distance_float 0 points stops)
     \<and> length (matched_hints distance_float 0 points stops) + length (open_stops w)
         = length stops
     \<and> track_paths w =
         zip (segments_between points 0
                (map fst (matched_hints distance_float 0 points stops)))
             (map (\<lambda>m. snd (snd m)) (matched_hints distance_float 0 points stops))
     \<and> map code (code_waypoints w) =
         map (\<lambda>m. hd (codes (snd (snd m)))) (matched_hints distance_float 0 points stops)
     \<and> sorted_wrt (<) (map fst (matched_hints distance_float 0 points stops))
     \<and> (\<forall>m \<in> set (matched_hints distance_float 0 points stops).
           fst m < length points \<and> snd m \<in> set stops
           \<and> distance_float (fst (snd m)) (points ! fst m) < 8 / 100)
     \<and> last_stop_index w =
         (if matched_hints distance_float 0 points stops = [] then 0
          else fst (last (matched_hints distance_float 0 points stops)))
     \<and> concat (map fst (track_paths w)) = take (last_stop_index w) points"
proof -
  let ?ms = "matched_hints distance_float 0 points stops"
  from trace_walk_inv [OF init_walk_inv(1) [OF assms], where rest = points
      and distance_float = distance_float]
  obtain w where w: "trace_walk distance_float points 0 points (init_walk stops) = Inr w"
    and inv: "walk_inv points (length stops) (0 + length points) w" by blast
  from assms(2) have "list_all (\<lambda>kv. codes (snd kv) \<noteq> []) (open_stops (init_walk stops))"
    by (simp add: init_walk_def)
  from trace_walk_segments [OF this, of distance_float points 0 points] w
  have seg: "track_paths w = zip (segments_between points 0 (map fst ?ms))
                                 (map (\<lambda>m. snd (snd m)) ?ms)"
    and cw: "map code (code_waypoints w) = map (\<lambda>m. hd (codes (snd (snd m)))) ?ms"
    and lsi: "last_stop_index w = (if ?ms = [] then 0 else fst (last ?ms))"
    by (auto simp: init_walk_def)
  from cw have len: "length (code_waypoints w) = length ?ms"
    by (metis length_map)
  from matched_hints_indices [of distance_float 0 points stops]
  have idx: "sorted_wrt (<) (map fst ?ms)"
    "\<forall>m \<in> set ?ms. fst m < length points \<and> snd m \<in> set stops
        \<and> distance_float (fst (snd m)) (points ! fst m) < 8 / 100"
    by auto
  from inv len have "length (track_paths w) = length ?ms"
    "length ?ms + length (open_stops w) = length stops"
    "concat (map fst (track_paths w)) = take (last_stop_index w) points"
    by (simp_all add: walk_inv_def)
  with w len seg cw idx lsi show ?thesis by blast
qed

text \<open>
  Claim C7, as amended. When \<open>distance_float\<close> returns no negative number, the walk of
  \<open>import_data\<close> (for a dict of stops with distinct keys whose stations have a code each)
  returns waypoints whose \<open>distance_from_start\<close> never decreases: each later waypoint has
  a distance at least as large as every earlier one.
\<close>

theorem C7_distances_ascending:
  assumes "\<forall>a b. 0 \<le> distance_float a b"
    and "distinct (map fst stops)" and "list_all (\<lambda>kv. codes (snd kv) \<noteq> []) stops"
  shows "\<exists>w. trace_walk distance_float points 0 points (init_walk stops) = Inr w
           \<and> sorted (map distance_from_start (code_waypoints w))"
proof -
  from trace_walk_inv [OF init_walk_inv(1) [OF assms(2,3)], where rest = points
      and distance_float = distance_float]
    init_walk_inv(2) [OF assms(2,3)] assms(1)
  obtain w where "trace_walk distance_float points 0 points (init_walk stops) = Inr w"
    "distances_inv w" by blast
  then show ?thesis by (auto simp: distances_inv_def)
qed


lemmas walk_defs =
  walk_step_def init_walk_def grid_km_def point_def plain_station_def dict_pop_def slice_def
  ascii_def

text \<open>
  The theorem of claim C6 at a trace of four points that passes two stops, at its second
  and at its last point.
\<close>

theorem C6_one_segment_per_match_witness:
  "\<exists>w. trace_walk grid_km
          [point 47 9, point 48 9, point (481 / 10) 9, point (482 / 10) 9] 0
          [point 47 9, point 48 9, point (481 / 10) 9, point (482 / 10) 9]
          (init_walk [(point 48 9, plain_station ''Hausen'' ''XHA''),
                      (point (482 / 10) 9, plain_station ''Berg'' ''XBE'')]) = Inr w
       \<and> track_paths w =
           [([point 47 9], plain_station ''Hausen'' ''XHA''),
            ([point 48 9, point (481 / 10) 9], plain_station ''Berg'' ''XBE'')]
       \<and> length (code_waypoints w) = 2"
proof -
  let ?stops = "[(point 48 9, plain_station ''Hausen'' ''XHA''),
                 (point (482 / 10) 9, plain_station ''Berg'' ''XBE'')]"
  let ?points = "[point 47 9, point 48 9, point (481 / 10) 9, point (482 / 10) 9]"
  have h1: "distinct (map fst ?stops)" by (simp add: point_def)
  have h2: "list_all (\<lambda>kv. codes (snd kv) \<noteq> []) ?stops" by (simp add: plain_station_def)
  have ms: "matched_hints grid_km 0 ?points ?stops
      = [(1, point 48 9, plain_station ''Hausen'' ''XHA''),
         (3, point (482 / 10) 9, plain_station ''Berg'' ''XBE'')]"
    by (simp add: grid_km_def point_def dict_pop_def)
  from C6_one_segment_per_match [OF h1 h2, of grid_km ?points]
  show ?thesis unfolding ms by (auto simp: slice_def)
qed

text \<open>
  Claim C6 as stated fails: on a trace of four points whose first point precedes the first
  match, two stops are matched, at the second and at the last point, and \<open>track_paths\<close>
  has two entries, not three: the leading point, and the two points from the first match
  up to the second.
\<close>

theorem C6_no_extra_segment_counterexample:
  "map_sum id (\<lambda>w. (map code (code_waypoints w), track_paths w, open_stops w))
     (trace_walk grid_km
        [point 47 9, point 48 9, point (481 / 10) 9, point (482 / 10) 9] 0
        [point 47 9, point 48 9, point (481 / 10) 9, point (482 / 10) 9]
        (init_walk [(point 48 9, plain_station ''Hausen'' ''XHA''),
                    (point (482 / 10) 9, plain_station ''Berg'' ''XBE'')]))
   = Inr ([ascii ''XHA'', ascii ''XBE''],
          [([point 47 9], plain_station ''Hausen'' ''XHA''),
           ([point 48 9, point (481 / 10) 9], plain_station ''Berg'' ''XBE'')],
          [])"
  by (simp add: walk_defs Let_def)

text \<open>
  The theorem of claim C7 at a trace of four points that passes two stops.
\<close>

theorem C7_distances_ascending_witness:
  "\<exists>w. trace_walk grid_km
          [point 47 9, point 48 9, point (481 / 10) 9, point (482 / 10) 9] 0
          [point 47 9, point 48 9, point (481 / 10) 9, point (482 / 10) 9]
          (init_walk [(point 48 9, plain_station ''Hausen'' ''XHA''),
                      (point (482 / 10) 9, plain_station ''Berg'' ''XBE'')]) = Inr w
       \<and> sorted (map distance_from_start (code_waypoints w))"
proof -
  let ?stops = "[(point 48 9, plain_station ''Hausen'' ''XHA''),
                 (point (482 / 10) 9, plain_station ''Berg'' ''XBE'')]"
  have h0: "\<forall>a b. 0 \<le> grid_km a b" by (simp add: grid_km_def)
  have h1: "distinct (map fst ?stops)" by (simp add: point_def)
  have h2: "list_all (\<lambda>kv. codes (snd kv) \<noteq> []) ?stops" by (simp add: plain_station_def)
  from C7_distances_ascending [OF h0 h1 h2,
      of "[point 47 9, point 48 9, point (481 / 10) 9, point (482 / 10) 9]"]
  show ?thesis by auto
qed

text \<open>
  Claim C7 as stated fails: a trace that repeats its first point, with two stops within 80
  metres of it, emits two waypoints with the same distance 0. The distance between the two
  equal track points is zero for every distance function.
\<close>

theorem C7_equal_distances_counterexample:
  "map_sum id (\<lambda>w. map distance_from_start (code_waypoints w))
     (trace_walk grid_km [point 48 9, point 48 9] 0 [point 48 9, point 48 9]
        (init_walk [(point 48 9, plain_station ''Hausen'' ''XHA''),
                    (point (480005 / 10000) 9, plain_station ''Hausen Nord'' ''XHN'')]))
   = Inr [0, 0]"
  by (simp add: walk_defs)

section \<open>Properties of the waypoint resolution\<close>

lemmas resolve_defs =
  init_importer_def possible_stations_def one_place_def halt_place_def countries_de_def
  resolve_waypoint_def new_station_def plain_station_def point_def dict_of_def
  normalize_name_def lower_def unidecode_def is_ascii_def lower_char_def delimiters_sub_def
  omitted_tokens_sub_def is_space_def saint_def ascii_def utf8_length_def
  group_from_photon_response_def largest_group_def List.map_filter_simps Let_def

lemma decimal_123456: "decimal 123456 = ascii ''123456''"
  by (simp add: decimal.simps ascii_def)

text \<open>
  Claim C5 at a failing input. The catalog is empty and the geocoder finds the same halt,
  which no catalog station is named after, for two waypoints 20 metres apart. The loop
  makes a new station for each waypoint and appends both: the list \<open>stations\<close> ends with
  two records that share their only code, the flag, the letter O and the identifier
  123456.
\<close>

theorem C5_same_place_twice:
  "map_sum id stations
     (resolve_waypoints lower_sample unidecode_sample countries_de
        (one_place (halt_place ''Halt'')) False [point 48 9, point (480002 / 10000) 9]
        (init_importer lower_sample unidecode_sample []))
   = Inr [\<lparr>name = ascii ''Halt'', number = 69123456,
            codes = [[127465, 127466, 79] @ ascii ''123456''],
            location = Some (point (480001 / 10000) 9), station_group = Some 5,
            locations_path = None\<rparr>,
          \<lparr>name = ascii ''Halt'', number = 69123456,
            codes = [[127465, 127466, 79] @ ascii ''123456''],
            location = Some (point (480001 / 10000) 9), station_group = Some 5,
            locations_path = None\<rparr>]"
  by (simp add: resolve_defs decimal_123456)

text \<open>
  Claim C8 at a failing input. The catalog holds one station without a location, and the
  geocoder finds a place of its name for the waypoint. The copy with the location of the
  waypoint is appended to \<open>stations\<close>, and the old record is still in the list, before the
  copy; it has only left the table \<open>name_to_station\<close>.
\<close>

theorem C8_old_record_stays:
  "map_sum id stations
     (resolve_waypoints lower_sample unidecode_sample countries_de
        (one_place (halt_place ''Hausen'')) False [point 48 9]
        (init_importer lower_sample unidecode_sample [plain_station ''Hausen'' ''XHA'']))
   = Inr [plain_station ''Hausen'' ''XHA'',
          (plain_station ''Hausen'' ''XHA'')\<lparr>location := Some (point 48 9)\<rparr>]"
  by (simp add: resolve_defs)

section \<open>From the resolution to the walk\<close>

text \<open>The condition of distinct keys in the properties of the walk holds of every dict
  that the loop over the waypoints builds.\<close>

lemma dict_set_keys: "set (map fst (dict_set k v kvs)) = insert k (set (map fst kvs))"
proof (induction kvs)
  case Nil
  show ?case by simp
next
  case (Cons a kvs)
  obtain k' v' where a: "a = (k', v')" by (cases a)
  show ?case
  proof (cases "k' = k")
    case True
    then show ?thesis by (simp add: a)
  next
    case False
    with Cons.IH show ?thesis by (simp add: a insert_commute)
  qed
qed

lemma dict_set_distinct:
  "distinct (map fst kvs) \<Longrightarrow> distinct (map fst (dict_set k v kvs))"
proof (induction kvs)
  case Nil
  show ?case by simp
next
  case (Cons a kvs)
  obtain k' v' where a: "a = (k', v')" by (cases a)
  from Cons.prems have "k' \<notin> set (map fst kvs)" "distinct (map fst kvs)"
    by (simp_all add: a)
  with Cons.IH dict_set_keys [of k v kvs] show ?case
    by (cases "k' = k") (simp_all add: a)
qed

lemma resolve_waypoint_distinct:
  assumes "resolve_waypoint L U countries ps waypoint r = Inr r'"
    and "distinct (map fst (waypoint_location_to_station_location r))"
  shows "distinct (map fst (waypoint_location_to_station_location r'))"
  using assms
  by (auto simp: resolve_waypoint_def Let_def dict_set_distinct
      split: option.splits sum.splits if_splits)

lemma resolve_waypoints_distinct:
  assumes "resolve_waypoints L U countries reverse fallback_town waypoints r = Inr r'"
    and "distinct (map fst (waypoint_location_to_station_location r))"
  shows "distinct (map fst (waypoint_location_to_station_location r'))"
  using assms
proof (induction waypoints arbitrary: r)
  case Nil
  then show ?case by simp
next
  case (Cons waypoint waypoints)
  show ?case
  proof (cases "possible_stations reverse fallback_town waypoint")
    case None
    with Cons show ?thesis by simp
  next
    case (Some ps)
    with Cons.prems(1) obtain r1 where
      r1: "resolve_waypoint L U countries ps waypoint r = Inr r1"
          "resolve_waypoints L U countries reverse fallback_town waypoints r1 = Inr r'"
      by (auto split: sum.splits)
    from resolve_waypoint_distinct [OF r1(1) Cons.prems(2)] Cons.IH [OF r1(2)]
    show ?thesis by simp
  qed
qed

text \<open>The dict that \<open>import_data\<close> hands to its walk has distinct keys.\<close>

lemma import_data_stops_distinct:
  assumes "import_data L U countries reverse distance_float fallback_town station_data
             gpx_waypoints points = Inr (r, w)"
  shows "distinct (map fst (waypoint_location_to_station_location r))"
    and "trace_walk distance_float points 0 points
           (init_walk (waypoint_location_to_station_location r)) = Inr w"
proof -
  from assms have
    r: "resolve_waypoints L U countries reverse fallback_town gpx_waypoints
          (init_importer L U station_data) = Inr r"
    and w: "trace_walk distance_float points 0 points
          (init_walk (waypoint_location_to_station_location r)) = Inr w"
    by (auto simp: import_data_def split: sum.splits)
  from resolve_waypoints_distinct [OF r] show
    "distinct (map fst (waypoint_location_to_station_location r))"
    by (simp add: init_importer_def)
  from w show "trace_walk distance_float points 0 points
           (init_walk (waypoint_location_to_station_location r)) = Inr w" .
qed

end
